(* ===== verification/Rust_Prelude.thy ===== *)
theory Rust_Prelude
  imports Main "HOL-Library.Word"
begin

text \<open>
  Shared vocabulary of the development: the outcome of an asynchronous Rust call (a value, an
  error, a panic, or a future that is still pending), the \<open>?\<close> operator as a combinator that
  threads the history of effects, \<open>usize\<close> arithmetic on a target of a given pointer width,
  slices, decimal printing (\<open>to_string\<close>), I/O errors, and reachability with invariants.
\<close>

named_theorems outcome_simps \<open>rewrite rules of the outcome combinators\<close>
named_theorems slice_simps \<open>rewrite rules of the slice operations\<close>

type_synonym byte = "8 word"
type_synonym bytes = "byte list"
type_synonym u16 = "16 word"
type_synonym u32 = "32 word"

section \<open>Outcomes of asynchronous calls\<close>

text \<open>
  \<open>Ok\<close> and \<open>Err\<close> are Rust's \<open>Result\<close>; \<open>Panicked\<close> is an unwinding panic (a failed
  \<open>unwrap\<close>, \<open>expect\<close>, slice bound or overflow check); \<open>Blocked\<close> is a future that has
  been polled and is pending: nothing more happened so far, and dropping it there is what
  cancellation means in tokio.
\<close>

datatype ('e, 'a) res = Ok 'a | is_Err: Err 'e | Panicked | Blocked

lemma map_res_Ok_iff: "map_res f g r = Ok y \<longleftrightarrow> (\<exists>x. r = Ok x \<and> y = g x)"
  by (cases r) auto

lemma map_res_Panicked_iff: "map_res f g r = Panicked \<longleftrightarrow> r = Panicked"
  by (cases r) auto

lemma apfst_Ok_iff: "apfst (map_res f id) p = (Ok x, h) \<longleftrightarrow> p = (Ok x, h)"
  by (cases p) (auto simp: map_res_Ok_iff)

text \<open>
  A step of a task returns its outcome together with the history of the effects so far.
  \<open>and_then\<close> continues on \<open>Ok\<close> and returns early on everything else, as \<open>?\<close> does.
\<close>

definition and_then ::
  "('e, 'a) res \<times> 'h \<Rightarrow> ('a \<Rightarrow> 'h \<Rightarrow> ('e, 'b) res \<times> 'h) \<Rightarrow> ('e, 'b) res \<times> 'h" where
  "and_then r k = (case r of
      (Ok x, h) \<Rightarrow> k x h
    | (Err e, h) \<Rightarrow> (Err e, h)
    | (Panicked, h) \<Rightarrow> (Panicked, h)
    | (Blocked, h) \<Rightarrow> (Blocked, h))"

text \<open>A \<open>Result\<close> whose error is converted by \<open>From::from\<close> or \<open>map_err\<close>.\<close>

definition try_map :: "('e \<Rightarrow> 'f) \<Rightarrow> 'e + 'a \<Rightarrow> ('f, 'a) res" where
  "try_map f r = (case r of Inl e \<Rightarrow> Err (f e) | Inr x \<Rightarrow> Ok x)"

lemma and_then_simps [simp, outcome_simps]:
  "and_then (Ok x, h) k = k x h"
  "and_then (Err e, h) k = (Err e, h)"
  "and_then (Panicked, h) k = (Panicked, h)"
  "and_then (Blocked, h) k = (Blocked, h)"
  by (simp_all add: and_then_def)

lemma try_map_simps [simp, outcome_simps]:
  "try_map f (Inl e) = Err (f e)"
  "try_map f (Inr x) = Ok x"
  by (simp_all add: try_map_def)

lemma try_map_Ok_iff [simp]: "try_map f r = Ok x \<longleftrightarrow> r = Inr x"
  by (cases r) auto

lemma try_map_not_stuck [simp]: "try_map f r \<noteq> Panicked" "try_map f r \<noteq> Blocked"
  by (cases r; simp)+

lemma and_then_Ok_iff:
  "and_then r k = (Ok y, h') \<longleftrightarrow> (\<exists>x h. r = (Ok x, h) \<and> k x h = (Ok y, h'))"
  by (cases r; cases "fst r") auto

lemma and_then_OkE [elim!]:
  assumes "and_then r k = (Ok y, h')"
  obtains x h where "r = (Ok x, h)" "k x h = (Ok y, h')"
  using assms by (auto simp: and_then_Ok_iff)

text \<open>What every step keeps of the history, their composition keeps.\<close>

lemma and_then_history:
  assumes "P (snd r)" and "\<And>x h. P h \<Longrightarrow> P (snd (k x h))"
  shows "P (snd (and_then r k))"
  using assms by (cases r; cases "fst r") auto

lemma and_then_stops_or_goes_on:
  "snd (and_then r k) = snd r \<or> (\<exists>x. snd (and_then r k) = snd (k x (snd r)))"
  by (cases r; cases "fst r") auto

lemma and_then_no_panic:
  "fst r \<noteq> Panicked \<Longrightarrow> (\<And>x. fst r = Ok x \<Longrightarrow> fst (k x (snd r)) \<noteq> Panicked) \<Longrightarrow> fst (and_then r k) \<noteq> Panicked"
  by (cases r; cases "fst r") auto

lemma and_then_Panicked_iff:
  "fst (and_then r k) = Panicked \<longleftrightarrow> fst r = Panicked \<or> (\<exists>x. fst r = Ok x \<and> fst (k x (snd r)) = Panicked)"
  by (cases r; cases "fst r") auto

lemma if_no_panic:
  "(b \<Longrightarrow> fst r \<noteq> Panicked) \<Longrightarrow> (\<not> b \<Longrightarrow> fst r' \<noteq> Panicked) \<Longrightarrow> fst (if b then r else r') \<noteq> Panicked"
  by simp

text \<open>A synchronous call neither panics nor waits if none of its steps does.\<close>

definition settled :: "('e, 'a) res \<Rightarrow> bool" where
  "settled r \<longleftrightarrow> r \<noteq> Panicked \<and> r \<noteq> Blocked"

lemma settled_simps [simp]:
  "settled (Ok x)" "settled (Err e)" "\<not> settled Panicked" "\<not> settled Blocked" "settled (try_map f s)"
  by (simp_all add: settled_def)

lemma and_then_settled:
  assumes "settled (fst r)" and "\<And>x h. settled (fst (k x h))"
  shows "settled (fst (and_then r k))"
  using assms by (cases r; cases "fst r") auto

lemma and_then_done: "fst r = Ok x \<Longrightarrow> and_then r k = k x (snd r)"
  by (cases r) simp

section \<open>Machine integers of the target\<close>

text \<open>
  The pointer width of the target and whether the profile compiles overflow checks and debug
  assertions in (both are on in a \<open>cargo build\<close> without \<open>--release\<close>).
\<close>

record target =
  ptr_bits :: nat
  debug_build :: bool

definition x86_64_debug :: target where
  "x86_64_debug = \<lparr>ptr_bits = 64, debug_build = True\<rparr>"

definition x86_64_release :: target where
  "x86_64_release = \<lparr>ptr_bits = 64, debug_build = False\<rparr>"

text \<open>Addition on \<open>usize\<close>: panics on overflow in a debug build and wraps around otherwise.\<close>

definition usize_add :: "target \<Rightarrow> nat \<Rightarrow> nat \<Rightarrow> nat option" where
  "usize_add tgt a b =
     (if a + b < 2 ^ ptr_bits tgt then Some (a + b)
      else if debug_build tgt then None
      else Some ((a + b) mod 2 ^ ptr_bits tgt))"

text \<open>The cast \<open>x as usize\<close> of a \<open>u32\<close>.\<close>

definition u32_as_usize :: "target \<Rightarrow> u32 \<Rightarrow> nat" where
  "u32_as_usize tgt w = unat w mod 2 ^ ptr_bits tgt"

lemma unat_u32_bound: "unat (w :: u32) < 2 ^ 32"
  using unsigned_less [of w] by simp

lemma u32_as_usize_wide [simp]:
  assumes "32 \<le> ptr_bits tgt"
  shows "u32_as_usize tgt w = unat w"
proof -
  have "(2 :: nat) ^ 32 \<le> 2 ^ ptr_bits tgt" using assms by (rule power_increasing) simp
  with unat_u32_bound [of w] have "unat w < 2 ^ ptr_bits tgt" by linarith
  then show ?thesis by (simp add: u32_as_usize_def)
qed

section \<open>Slices\<close>

text \<open>\<open>slice.split_at(n)\<close> panics when \<open>n\<close> is past the end.\<close>

definition split_at :: "nat \<Rightarrow> 'a list \<Rightarrow> ('a list \<times> 'a list) option" where
  "split_at n xs = (if n \<le> length xs then Some (take n xs, drop n xs) else None)"

lemma split_at_append [simp, slice_simps]: "split_at (length xs) (xs @ ys) = Some (xs, ys)"
  by (simp add: split_at_def)

lemma split_at_join: "split_at n xs = Some (a, b) \<Longrightarrow> a @ b = xs \<and> length a = n"
  by (auto simp: split_at_def split: if_splits)

text \<open>A prefix no longer than the first part of a concatenation is a prefix of that part.\<close>

lemma append_eq_append_short:
  assumes "xs @ ys = zs @ ws" and "length zs \<le> length xs"
  shows "\<exists>us. xs = zs @ us \<and> ws = us @ ys"
  using assms by (auto simp: append_eq_append_conv2)

section \<open>Decimal printing\<close>

text \<open>\<open>to_string\<close> of an unsigned integer.\<close>

definition digit_char :: "nat \<Rightarrow> char" where
  "digit_char d = char_of (48 + d)"

fun show_nat :: "nat \<Rightarrow> string" where
  "show_nat n =
     (if n < 10 then [digit_char n] else show_nat (n div 10) @ [digit_char (n mod 10)])"

declare show_nat.simps [simp del]

definition read_nat :: "string \<Rightarrow> nat" where
  "read_nat s = foldl (\<lambda>a c. 10 * a + (of_char c - 48)) 0 s"

lemma of_char_digit_char: "d < 10 \<Longrightarrow> (of_char (digit_char d) :: nat) = 48 + d"
  by (simp add: digit_char_def)

lemma read_show_nat [simp]: "read_nat (show_nat n) = n"
proof (induction n rule: show_nat.induct)
  case (1 n)
  show ?case
  proof (cases "n < 10")
    case True
    then show ?thesis by (simp add: show_nat.simps [of n] read_nat_def of_char_digit_char)
  next
    case False
    with "1.IH" show ?thesis
      by (simp add: show_nat.simps [of n] read_nat_def of_char_digit_char)
  qed
qed

lemma show_nat_inj: "inj show_nat"
  by (rule inj_on_inverseI [where g = read_nat]) simp

lemma show_nat_eq_iff [simp]: "show_nat m = show_nat n \<longleftrightarrow> m = n"
  using show_nat_inj by (auto dest: injD)

section \<open>I/O errors\<close>

datatype error_kind = UnexpectedEof | InvalidData | NotFound | AddrInUse | OtherKind nat

datatype io_error = IoErr error_kind string

section \<open>Reachable states and invariants\<close>

inductive reach :: "('s \<Rightarrow> bool) \<Rightarrow> ('s \<Rightarrow> 's \<Rightarrow> bool) \<Rightarrow> 's \<Rightarrow> bool" for init step where
  reach_init: "init s \<Longrightarrow> reach init step s"
| reach_step: "reach init step s \<Longrightarrow> step s t \<Longrightarrow> reach init step t"

text \<open>
  The contract of a transition system with an inductive invariant. It is interpreted on every
  step relation of the development.
\<close>

locale inductive_system =
  fixes init :: "'s \<Rightarrow> bool" and step :: "'s \<Rightarrow> 's \<Rightarrow> bool" and good :: "'s \<Rightarrow> bool"
  assumes init_good: "init s \<Longrightarrow> good s"
    and step_good: "good s \<Longrightarrow> step s t \<Longrightarrow> good t"
begin

lemma reach_good: "reach init step s \<Longrightarrow> good s"
  by (induction rule: reach.induct) (auto intro: init_good step_good)

lemma step_mono_reach:
  fixes f :: "'s \<Rightarrow> 'b :: preorder"
  assumes "\<And>s t. good s \<Longrightarrow> step s t \<Longrightarrow> f s \<le> f t"
    and "good s" and "step\<^sup>*\<^sup>* s t"
  shows "f s \<le> f t \<and> good t"
  using assms(3,2)
  by (induction rule: rtranclp_induct) (auto intro: step_good order_trans assms(1))

end

end
