(* ===== verification/Transport.thy ===== *)
theory Transport
  imports Rust_Prelude
begin

unbundle bit_operations_syntax

text \<open>
  The message transport of \<open>upgrade2webrtc/src/transport.rs\<close>: length-prefixed frames on a byte
  stream. A frame is the little-endian \<open>u32\<close> length of the serialised object followed by its
  bytes. The stream underneath (tokio's \<open>AsyncRead\<close> and \<open>AsyncWrite\<close>) is a parameter: the
  list of results its reads will return and the script of results of its writes and flushes.
  The serialiser (\<open>bitcode\<close>) is a parameter too.
\<close>

section \<open>The byte stream underneath\<close>

text \<open>
  What \<open>stream.read\<close> returns: some bytes (no byte means end of file) or an error. An empty list
  of results still to come means that the read is pending.
\<close>

datatype read_outcome = ReadOk bytes | ReadErr io_error

text \<open>
  What a \<open>write_all\<close> or a \<open>flush\<close> does: it completes, it fails after the first \<open>n\<close> bytes, or
  it is pending after the first \<open>n\<close> bytes.
\<close>

datatype write_outcome = WriteDone | WriteFail nat io_error | WriteStall nat

record stream =
  reads :: "read_outcome list"
  writes :: "write_outcome list"
  written :: bytes
  flushed :: nat

definition write_all :: "bytes \<Rightarrow> stream \<Rightarrow> (io_error, unit) res \<times> stream" where
  "write_all bs s = (case writes s of
      [] \<Rightarrow> (Blocked, s)
    | WriteDone # ws \<Rightarrow> (Ok (), s\<lparr>writes := ws, written := written s @ bs\<rparr>)
    | WriteFail n e # ws \<Rightarrow> (Err e, s\<lparr>writes := ws, written := written s @ take n bs\<rparr>)
    | WriteStall n # ws \<Rightarrow> (Blocked, s\<lparr>writes := ws, written := written s @ take n bs\<rparr>))"

definition stream_flush :: "stream \<Rightarrow> (io_error, unit) res \<times> stream" where
  "stream_flush s = (case writes s of
      [] \<Rightarrow> (Blocked, s)
    | WriteDone # ws \<Rightarrow> (Ok (), s\<lparr>writes := ws, flushed := length (written s)\<rparr>)
    | WriteFail n e # ws \<Rightarrow> (Err e, s\<lparr>writes := ws\<rparr>)
    | WriteStall n # ws \<Rightarrow> (Blocked, s\<lparr>writes := ws\<rparr>))"

section \<open>The transport and its frames\<close>

datatype 'de RecvError = DeserializeError 'de | IOError io_error

record StreamTransport =
  stream :: stream
  recv_buffer :: bytes

text \<open>\<open>From<T> for StreamTransport<T>\<close>: a fresh transport has an empty buffer.\<close>

definition transport_from :: "stream \<Rightarrow> StreamTransport" where
  "transport_from s = \<lparr>stream = s, recv_buffer = []\<rparr>"

text \<open>\<open>u32::to_le_bytes\<close> and \<open>u32::from_le_bytes\<close>; the conversion of a slice that is not of
  length four to \<open>[u8; 4]\<close> fails.\<close>

definition to_le_bytes :: "u32 \<Rightarrow> bytes" where
  "to_le_bytes w =
     [ucast w, ucast (drop_bit 8 w), ucast (drop_bit 16 w), ucast (drop_bit 24 w)]"

definition from_le_bytes :: "bytes \<Rightarrow> u32 option" where
  "from_le_bytes bs = (case bs of
      [a, b, c, d] \<Rightarrow>
        Some (ucast a OR push_bit 8 (ucast b) OR push_bit 16 (ucast c) OR push_bit 24 (ucast d))
    | _ \<Rightarrow> None)"

text \<open>
  The size computation of \<open>recv_obj\<close>: \<open>u32::from_le_bytes(size) as usize + 4\<close>.
\<close>

definition frame_size :: "target \<Rightarrow> bytes \<Rightarrow> nat option" where
  "frame_size tgt header = (case from_le_bytes header of
      None \<Rightarrow> None
    | Some sz \<Rightarrow> usize_add tgt (u32_as_usize tgt sz) 4)"

datatype frame_result = Incomplete | Frame bytes bytes | FramePanic

text \<open>
  The attempt to take a frame off the front of the buffer, which \<open>recv_obj\<close> makes before its
  first read and after every read: the payload and what \<open>drain\<close> leaves.
\<close>

definition split_frame :: "target \<Rightarrow> bytes \<Rightarrow> frame_result" where
  "split_frame tgt buf =
     (if length buf < 4 then Incomplete
      else case frame_size tgt (take 4 buf) of
        None \<Rightarrow> FramePanic
      | Some sz \<Rightarrow>
          (if length buf < sz then Incomplete
           else case split_at 4 (take sz buf) of
             None \<Rightarrow> FramePanic
           | Some (_, payload) \<Rightarrow> Frame payload (drop sz buf)))"

text \<open>\<open>send_obj\<close>: serialise, convert the length, write header and payload, flush.\<close>

definition send_obj ::
  "('o \<Rightarrow> bytes option) \<Rightarrow> 'o \<Rightarrow> StreamTransport \<Rightarrow> (io_error, unit) res \<times> StreamTransport" where
  "send_obj serialize obj t = (case serialize obj of
      None \<Rightarrow> (Panicked, t)
    | Some msg \<Rightarrow>
        (if 2 ^ 32 \<le> length msg then (Panicked, t)
         else apsnd (\<lambda>s. t\<lparr>stream := s\<rparr>)
           (and_then (write_all (to_le_bytes (of_nat (length msg))) (stream t)) (\<lambda>_ s.
            and_then (write_all msg s) (\<lambda>_ s.
            stream_flush s)))))"

text \<open>The result of \<open>bitcode::deserialize(buf).map_err(RecvError::DeserializeError)\<close>.\<close>

definition decoded :: "(bytes \<Rightarrow> 'de + 'v) \<Rightarrow> bytes \<Rightarrow> ('de RecvError, 'v) res" where
  "decoded deserialize payload = try_map DeserializeError (deserialize payload)"

text \<open>
  The read loop of \<open>recv_obj\<close>, over the results of the reads: the outcome, the receive buffer and
  the reads not made yet.
\<close>

fun recv_loop :: "target \<Rightarrow> (bytes \<Rightarrow> 'de + 'v) \<Rightarrow> bytes \<Rightarrow> read_outcome list
    \<Rightarrow> ('de RecvError, 'v) res \<times> bytes \<times> read_outcome list" where
  "recv_loop tgt de buf [] = (Blocked, buf, [])"
| "recv_loop tgt de buf (ReadErr e # rs) = (Err (IOError e), buf, rs)"
| "recv_loop tgt de buf (ReadOk bs # rs) =
     (if bs = [] then (Err (IOError (IoErr UnexpectedEof [])), buf, rs)
      else if 1024 < length bs then (Panicked, buf, rs)
      else case split_frame tgt (buf @ bs) of
        Incomplete \<Rightarrow> recv_loop tgt de (buf @ bs) rs
      | FramePanic \<Rightarrow> (Panicked, buf @ bs, rs)
      | Frame payload rest \<Rightarrow> (decoded de payload, rest, rs))"

definition recv_obj :: "target \<Rightarrow> (bytes \<Rightarrow> 'de + 'v) \<Rightarrow> StreamTransport
    \<Rightarrow> ('de RecvError, 'v) res \<times> StreamTransport" where
  "recv_obj tgt de t = (case split_frame tgt (recv_buffer t) of
      Frame payload rest \<Rightarrow> (decoded de payload, t\<lparr>recv_buffer := rest\<rparr>)
    | FramePanic \<Rightarrow> (Panicked, t)
    | Incomplete \<Rightarrow>
        (case recv_loop tgt de (recv_buffer t) (reads (stream t)) of
           (r, buf, rs) \<Rightarrow> (r, t\<lparr>stream := (stream t)\<lparr>reads := rs\<rparr>, recv_buffer := buf\<rparr>)))"

definition transport_flush :: "StreamTransport \<Rightarrow> (io_error, unit) res \<times> StreamTransport" where
  "transport_flush t = apsnd (\<lambda>s. t\<lparr>stream := s\<rparr>) (stream_flush (stream t))"

section \<open>Identification of a transport\<close>

text \<open>
  The implementations of \<open>IDUpgradeTransport\<close>: the leaf streams ask the operating system (the
  answer is a parameter), the wrappers ask the stream they wrap.
\<close>

datatype id_stream =
    TcpStream "io_error + string"
  | LocalSocketStream "io_error + nat"
  | DuplexStream string
  | TlsStream id_stream
  | ClientTlsStream id_stream
  | ServerTlsStream id_stream
  | Compat id_stream
  | BufStream id_stream

fun get_id :: "(io_error \<Rightarrow> string) \<Rightarrow> id_stream \<Rightarrow> string" where
  "get_id show_err (TcpStream peer_addr) =
     (case peer_addr of Inr x \<Rightarrow> x | Inl e \<Rightarrow> ''GET_ID_ERROR: '' @ show_err e)"
| "get_id show_err (LocalSocketStream peer_pid) =
     (case peer_pid of
        Inr x \<Rightarrow> ''PID('' @ show_nat x @ '')''
      | Inl e \<Rightarrow> ''GET_ID_ERROR: '' @ show_err e)"
| "get_id show_err (DuplexStream ptr) = ptr"
| "get_id show_err (TlsStream s) = get_id show_err s"
| "get_id show_err (ClientTlsStream s) = get_id show_err s"
| "get_id show_err (ServerTlsStream s) = get_id show_err s"
| "get_id show_err (Compat s) = get_id show_err s"
| "get_id show_err (BufStream s) = get_id show_err s"

text \<open>The two listeners: an accepted socket is buffered and becomes a fresh transport.\<close>

definition tcp_accept :: "io_error + (id_stream \<times> stream) \<Rightarrow> io_error + (id_stream \<times> StreamTransport)"
  where
  "tcp_accept accepted = map_sum id (\<lambda>(i, s). (BufStream i, transport_from s)) accepted"

definition local_socket_accept ::
  "io_error + (id_stream \<times> stream) \<Rightarrow> io_error + (id_stream \<times> StreamTransport)" where
  "local_socket_accept accepted =
     map_sum id (\<lambda>(i, s). (BufStream (Compat i), transport_from s)) accepted"

section \<open>Frames: lemmas\<close>

definition frame_of :: "bytes \<Rightarrow> bytes" where
  "frame_of msg = to_le_bytes (of_nat (length msg)) @ msg"

lemma length_to_le_bytes [simp]: "length (to_le_bytes w) = 4"
  by (simp add: to_le_bytes_def)

lemma length_frame_of [simp]: "length (frame_of msg) = 4 + length msg"
  by (simp add: frame_of_def)

lemma from_to_le_bytes [simp]: "from_le_bytes (to_le_bytes w) = Some w"
proof -
  let ?v = "ucast (ucast w :: byte) OR push_bit 8 (ucast (ucast (drop_bit 8 w) :: byte))
      OR push_bit 16 (ucast (ucast (drop_bit 16 w) :: byte))
      OR push_bit 24 (ucast (ucast (drop_bit 24 w) :: byte)) :: u32"
  have "?v = w"
  proof (rule bit_word_eqI)
    fix n assume n: "n < LENGTH(32)"
    consider "n < 8" | "8 \<le> n" "n < 16" | "16 \<le> n" "n < 24" | "24 \<le> n" by linarith
    then show "bit ?v n = bit w n"
      using n by cases (auto simp: bit_simps)
  qed
  then show ?thesis by (simp add: from_le_bytes_def to_le_bytes_def)
qed

lemma frame_size_header [simp]:
  assumes "33 \<le> ptr_bits tgt" and "length msg < 2 ^ 32"
  shows "frame_size tgt (to_le_bytes (of_nat (length msg))) = Some (4 + length msg)"
proof -
  have "(2 :: nat) ^ 33 \<le> 2 ^ ptr_bits tgt" using assms(1) by (rule power_increasing) simp
  moreover have "unat (of_nat (length msg) :: u32) = length msg"
    using assms(2) by (simp add: unat_of_nat)
  ultimately show ?thesis
    using assms by (simp add: frame_size_def usize_add_def)
qed

text \<open>On a target wider than 32 bits the size of a frame never overflows.\<close>

lemma frame_size_wide:
  assumes "33 \<le> ptr_bits tgt" and "length header = 4"
  obtains sz where "frame_size tgt header = Some sz" "4 \<le> sz" "sz < 2 ^ 32 + 4"
proof -
  obtain a b c d where "header = [a, b, c, d]"
    using assms(2) by (auto simp: numeral_eq_Suc length_Suc_conv)
  then obtain w where w: "from_le_bytes header = Some w"
    by (simp add: from_le_bytes_def)
  have "(2 :: nat) ^ 33 \<le> 2 ^ ptr_bits tgt" using assms(1) by (rule power_increasing) simp
  with unat_u32_bound [of w] have "unat w + 4 < 2 ^ ptr_bits tgt" by simp
  then have "frame_size tgt header = Some (unat w + 4)"
    using assms(1) w by (simp add: frame_size_def usize_add_def)
  with unat_u32_bound [of w] that show thesis by simp
qed

lemma split_frame_no_panic:
  assumes "33 \<le> ptr_bits tgt"
  shows "split_frame tgt buf \<noteq> FramePanic"
proof (cases "length buf < 4")
  case True
  then show ?thesis by (simp add: split_frame_def)
next
  case False
  then have "length (take 4 buf) = 4" by simp
  from frame_size_wide [OF assms this] obtain sz
    where "frame_size tgt (take 4 buf) = Some sz" "4 \<le> sz" by blast
  with False show ?thesis by (auto simp: split_frame_def split_at_def)
qed

lemma split_frame_complete:
  assumes "33 \<le> ptr_bits tgt" and "length msg < 2 ^ 32"
  shows "split_frame tgt (frame_of msg @ rest) = Frame msg rest"
proof -
  have "take 4 (frame_of msg @ rest) = to_le_bytes (of_nat (length msg))"
    by (simp add: frame_of_def)
  moreover have "take (4 + length msg) (frame_of msg @ rest) = frame_of msg"
    "drop (4 + length msg) (frame_of msg @ rest) = rest"
    by (metis append_eq_conv_conj length_frame_of)+
  moreover have "split_at 4 (frame_of msg) = Some (to_le_bytes (of_nat (length msg)), msg)"
    by (simp add: split_at_def frame_of_def)
  ultimately show ?thesis
    using assms by (simp add: split_frame_def)
qed

lemma split_frame_partial:
  assumes "33 \<le> ptr_bits tgt" and "length msg < 2 ^ 32"
    and "buf @ later = frame_of msg @ rest" and "length buf < 4 + length msg"
  shows "split_frame tgt buf = Incomplete"
proof (cases "length buf < 4")
  case True
  then show ?thesis by (simp add: split_frame_def)
next
  case False
  have "take 4 buf = take 4 (buf @ later)" using False by simp
  also have "\<dots> = to_le_bytes (of_nat (length msg))"
    by (simp add: assms(3) frame_of_def)
  finally show ?thesis
    using False assms by (simp add: split_frame_def)
qed

text \<open>A frame taken off the buffer together with the rest is the buffer.\<close>

lemma split_frame_size:
  assumes "split_frame tgt buf = Frame payload rest"
  shows "length buf = 4 + length payload + length rest"
  using assms by (auto simp: split_frame_def split_at_def split: if_splits option.splits)

lemma split_frame_incomplete_bound:
  assumes "33 \<le> ptr_bits tgt" and "split_frame tgt buf = Incomplete"
  shows "length buf < 2 ^ 32 + 4"
proof (cases "length buf < 4")
  case False
  then have "length (take 4 buf) = 4" by simp
  from frame_size_wide [OF assms(1) this] obtain sz
    where sz: "frame_size tgt (take 4 buf) = Some sz" "sz < 2 ^ 32 + 4" by blast
  with False assms(2) have "length buf < sz"
    by (auto simp: split_frame_def split: if_splits option.splits)
  with sz(2) show ?thesis by simp
qed simp

section \<open>Receiving: lemmas\<close>

text \<open>The chunks a reliable stream delivers: each read returns some bytes, at most the buffer.\<close>

definition good_chunks :: "bytes list \<Rightarrow> bool" where
  "good_chunks cs \<longleftrightarrow> (\<forall>c \<in> set cs. c \<noteq> [] \<and> length c \<le> 1024)"

lemma good_chunks_simps [simp]:
  "good_chunks []"
  "good_chunks (c # cs) \<longleftrightarrow> c \<noteq> [] \<and> length c \<le> 1024 \<and> good_chunks cs"
  "good_chunks (cs @ ds) \<longleftrightarrow> good_chunks cs \<and> good_chunks ds"
  by (auto simp: good_chunks_def)

lemma recv_loop_frame:
  assumes "33 \<le> ptr_bits tgt" and "length msg < 2 ^ 32"
    and "good_chunks cs" and "buf @ concat cs = frame_of msg @ rest"
    and "length buf < 4 + length msg"
  shows "\<exists>buf' cs'. recv_loop tgt de buf (map ReadOk cs @ rs) = (decoded de msg, buf', map ReadOk cs' @ rs)
    \<and> buf' @ concat cs' = rest \<and> good_chunks cs'"
  using assms(3-)
proof (induction cs arbitrary: buf)
  case Nil
  then have "length buf = length (frame_of msg @ rest)" by simp
  with Nil.prems(3) show ?case by simp
next
  case (Cons c cs)
  show ?case
  proof (cases "length (buf @ c) < 4 + length msg")
    case True
    from Cons.prems have eq: "(buf @ c) @ concat cs = frame_of msg @ rest" by simp
    with True have "split_frame tgt (buf @ c) = Incomplete"
      by (intro split_frame_partial [OF assms(1,2)])
    then have "recv_loop tgt de buf (map ReadOk (c # cs) @ rs)
        = recv_loop tgt de (buf @ c) (map ReadOk cs @ rs)"
      using Cons.prems(1) by simp
    moreover from Cons.prems(1) eq True have "\<exists>buf' cs'.
        recv_loop tgt de (buf @ c) (map ReadOk cs @ rs) = (decoded de msg, buf', map ReadOk cs' @ rs)
        \<and> buf' @ concat cs' = rest \<and> good_chunks cs'"
      by (intro Cons.IH) auto
    ultimately show ?thesis by simp
  next
    case False
    then have "length (frame_of msg) \<le> length (buf @ c)" by simp
    from append_eq_append_short [OF _ this, of "concat cs" rest] Cons.prems(2)
    obtain us where us: "buf @ c = frame_of msg @ us" "rest = us @ concat cs" by auto
    then have "split_frame tgt (buf @ c) = Frame msg us"
      using split_frame_complete [OF assms(1,2)] by simp
    then have "recv_loop tgt de buf (map ReadOk (c # cs) @ rs)
        = (decoded de msg, us, map ReadOk cs @ rs)"
      using Cons.prems(1) by simp
    with us(2) Cons.prems(1) show ?thesis by auto
  qed
qed

text \<open>The bytes that are on their way to the receiver: buffered, or still to be read.\<close>

definition delivers :: "StreamTransport \<Rightarrow> bytes \<Rightarrow> bytes list \<Rightarrow> read_outcome list \<Rightarrow> bool" where
  "delivers t bs cs rs \<longleftrightarrow>
     reads (stream t) = map ReadOk cs @ rs \<and> recv_buffer t @ concat cs = bs \<and> good_chunks cs"

lemma recv_obj_frame:
  assumes "33 \<le> ptr_bits tgt" and "length msg < 2 ^ 32"
    and "delivers t (frame_of msg @ rest) cs rs"
  shows "\<exists>t' cs'. recv_obj tgt de t = (decoded de msg, t') \<and> delivers t' rest cs' rs"
proof (cases "length (recv_buffer t) < 4 + length msg")
  case True
  have inc: "split_frame tgt (recv_buffer t) = Incomplete"
    using True assms by (intro split_frame_partial [OF assms(1,2)]) (auto simp: delivers_def)
  from recv_loop_frame [OF assms(1,2), of cs "recv_buffer t" rest de rs] True assms(3)
  obtain buf' cs' where "recv_loop tgt de (recv_buffer t) (reads (stream t))
      = (decoded de msg, buf', map ReadOk cs' @ rs)" "buf' @ concat cs' = rest" "good_chunks cs'"
    by (auto simp: delivers_def)
  with inc show ?thesis by (auto simp: recv_obj_def delivers_def)
next
  case False
  then have "length (frame_of msg) \<le> length (recv_buffer t)" by simp
  from append_eq_append_short [OF _ this, of "concat cs" rest] assms(3)
  obtain us where us: "recv_buffer t = frame_of msg @ us" "rest = us @ concat cs"
    by (auto simp: delivers_def)
  then have "split_frame tgt (recv_buffer t) = Frame msg us"
    using split_frame_complete [OF assms(1,2)] by simp
  with us assms(3) show ?thesis by (auto simp: recv_obj_def delivers_def)
qed

text \<open>Receiving one object after the other, each at its own type.\<close>

fun recv_all :: "target \<Rightarrow> (bytes \<Rightarrow> 'de + 'v) list \<Rightarrow> StreamTransport
    \<Rightarrow> ('de RecvError, 'v) res list \<times> StreamTransport" where
  "recv_all tgt [] t = ([], t)"
| "recv_all tgt (de # des) t =
     (case recv_obj tgt de t of (r, t1) \<Rightarrow>
        case recv_all tgt des t1 of (rs, t2) \<Rightarrow> (r # rs, t2))"

lemma recv_all_frames:
  assumes "33 \<le> ptr_bits tgt" and "\<forall>m \<in> set msgs. length m < 2 ^ 32"
    and "delivers t (concat (map frame_of msgs) @ rest) cs rs" and "length des = length msgs"
  shows "\<exists>t' cs'. recv_all tgt des t = (map2 decoded des msgs, t') \<and> delivers t' rest cs' rs"
  using assms(2-)
proof (induction msgs arbitrary: t cs des)
  case Nil
  then show ?case by auto
next
  case (Cons m msgs)
  from Cons.prems(3) obtain de des' where des: "des = de # des'" "length des' = length msgs"
    by (cases des) auto
  from Cons.prems have "delivers t (frame_of m @ concat (map frame_of msgs) @ rest) cs rs"
    by simp
  with recv_obj_frame [OF assms(1)] Cons.prems(1) obtain t1 cs1 where
    one: "recv_obj tgt de t = (decoded de m, t1)"
      "delivers t1 (concat (map frame_of msgs) @ rest) cs1 rs"
    by (metis list.set_intros(1))
  from Cons.IH [OF _ one(2) des(2)] Cons.prems(1) obtain t' cs' where
    "recv_all tgt des' t1 = (map2 decoded des' msgs, t')" "delivers t' rest cs' rs"
    by auto
  with one(1) des(1) show ?case by auto
qed

lemma recv_loop_blocked:
  assumes "recv_loop tgt de buf rs = (Blocked, buf', rs')"
  shows "rs' = []"
    and "recv_loop tgt de buf (rs @ rs2) = recv_loop tgt de buf' rs2"
    and "split_frame tgt buf = Incomplete \<Longrightarrow> split_frame tgt buf' = Incomplete"
  using assms
  by (induction tgt de buf rs rule: recv_loop.induct)
    (auto simp: decoded_def split: if_splits frame_result.splits)

definition extend_reads :: "read_outcome list \<Rightarrow> StreamTransport \<Rightarrow> StreamTransport" where
  "extend_reads rs t = t\<lparr>stream := (stream t)\<lparr>reads := reads (stream t) @ rs\<rparr>\<rparr>"

lemma extend_reads_simps [simp]:
  "recv_buffer (extend_reads rs t) = recv_buffer t"
  "reads (stream (extend_reads rs t)) = reads (stream t) @ rs"
  by (simp_all add: extend_reads_def)

lemma recv_loop_no_panic:
  assumes "33 \<le> ptr_bits tgt" and "\<forall>bs. ReadOk bs \<in> set rs \<longrightarrow> length bs \<le> 1024"
  shows "fst (recv_loop tgt de buf rs) \<noteq> Panicked"
  using assms
  by (induction tgt de buf rs rule: recv_loop.induct)
    (auto simp: decoded_def split_frame_no_panic split: frame_result.splits)

text \<open>What a read leaves behind a completed frame is shorter than what the read returned.\<close>

lemma split_frame_leftover:
  assumes "split_frame tgt buf = Incomplete" and "split_frame tgt (buf @ bs) = Frame payload rest"
  shows "length rest < length bs"
proof (cases "length buf < 4")
  case True
  with split_frame_size [OF assms(2)] show ?thesis by simp
next
  case False
  with assms(1) obtain sz where sz: "frame_size tgt (take 4 buf) = Some sz" "length buf < sz"
    by (auto simp: split_frame_def split: option.splits if_splits prod.splits)
  with False assms(2) have "length rest = length buf + length bs - sz \<and> sz \<le> length buf + length bs"
    by (auto simp: split_frame_def split: option.splits if_splits prod.splits)
  with sz(2) show ?thesis by linarith
qed

lemma recv_loop_buffer_bound:
  assumes "33 \<le> ptr_bits tgt" and "split_frame tgt buf = Incomplete"
    and "recv_loop tgt de buf rs = (r, buf', rs')" and "r \<noteq> Panicked"
  shows "length buf' < 2 ^ 32 + 4"
  using assms
proof (induction tgt de buf rs rule: recv_loop.induct)
  case (3 tgt de buf bs rs)
  note inc = split_frame_incomplete_bound [OF "3.prems"(1)]
  show ?case
  proof (cases "split_frame tgt (buf @ bs)")
    case (Frame payload rest)
    from split_frame_leftover [OF "3.prems"(2) Frame] have "length rest < length bs" .
    with Frame "3.prems" inc show ?thesis by (auto split: if_splits)
  next
    case Incomplete
    with "3.prems" "3.IH" inc show ?thesis by (auto split: if_splits)
  qed (use "3.prems" inc in \<open>auto split: if_splits\<close>)
qed (auto dest: split_frame_incomplete_bound)

section \<open>Sending: lemmas\<close>

lemma write_all_Ok:
  assumes "write_all bs s = (Ok u, s')"
  shows "written s' = written s @ bs" "reads s' = reads s"
  using assms by (auto simp: write_all_def split: list.splits write_outcome.splits)

lemma stream_flush_Ok:
  assumes "stream_flush s = (Ok u, s')"
  shows "written s' = written s" "reads s' = reads s" "flushed s' = length (written s)"
  using assms by (auto simp: stream_flush_def split: list.splits write_outcome.splits)

lemma send_obj_Ok:
  assumes "send_obj ser obj t = (Ok u, t')"
  obtains msg where "ser obj = Some msg" "length msg < 2 ^ 32"
    "written (stream t') = written (stream t) @ frame_of msg"
    "flushed (stream t') = length (written (stream t'))"
    "recv_buffer t' = recv_buffer t" "reads (stream t') = reads (stream t)"
proof -
  from assms obtain msg where msg: "ser obj = Some msg" "length msg < 2 ^ 32"
    by (auto simp: send_obj_def not_le split: option.splits if_splits)
  with assms obtain s3 where
    s3: "and_then (write_all (to_le_bytes (of_nat (length msg))) (stream t)) (\<lambda>_ s.
           and_then (write_all msg s) (\<lambda>_ s. stream_flush s)) = (Ok u, s3)"
    and t': "t' = t\<lparr>stream := s3\<rparr>"
    by (auto simp: send_obj_def apsnd_def map_prod_def split: prod.splits)
  from s3 obtain s1 s2 where
    "write_all (to_le_bytes (of_nat (length msg))) (stream t) = (Ok (), s1)"
    "write_all msg s1 = (Ok (), s2)" "stream_flush s2 = (Ok u, s3)"
    by auto
  with t' that [OF msg] show thesis
    by (simp add: frame_of_def write_all_Ok [of _ _ _ s1] write_all_Ok [of _ _ _ s2]
        stream_flush_Ok [of s2 _ s3])
qed

fun send_all :: "('o \<Rightarrow> bytes option) \<Rightarrow> 'o list \<Rightarrow> StreamTransport
    \<Rightarrow> (io_error, unit) res \<times> StreamTransport" where
  "send_all ser [] t = (Ok (), t)"
| "send_all ser (x # xs) t = and_then (send_obj ser x t) (\<lambda>_ t1. send_all ser xs t1)"

lemma send_all_Ok:
  assumes "send_all ser objs t = (Ok u, t')"
  shows "\<exists>msgs. list_all2 (\<lambda>x m. ser x = Some m \<and> length m < 2 ^ 32) objs msgs
    \<and> written (stream t') = written (stream t) @ concat (map frame_of msgs)"
  using assms
proof (induction objs arbitrary: t)
  case (Cons x xs)
  then obtain t1 where t1: "send_obj ser x t = (Ok (), t1)" "send_all ser xs t1 = (Ok u, t')"
    by auto
  from send_obj_Ok [OF t1(1)] obtain m where m: "ser x = Some m" "length m < 2 ^ 32"
    "written (stream t1) = written (stream t) @ frame_of m" by metis
  from Cons.IH [OF t1(2)] obtain msgs where
    "list_all2 (\<lambda>x m. ser x = Some m \<and> length m < 2 ^ 32) xs msgs"
    "written (stream t') = written (stream t1) @ concat (map frame_of msgs)" by blast
  with m show ?case by (intro exI [of _ "m # msgs"]) simp
qed simp

lemma delivers_Nil:
  assumes "delivers t [] cs rs"
  shows "recv_buffer t = []" "reads (stream t) = rs"
proof -
  from assms have "\<forall>c \<in> set cs. c = []" "good_chunks cs" by (auto simp: delivers_def)
  then have "cs = []" by (cases cs) (auto simp: good_chunks_def)
  with assms show "recv_buffer t = []" "reads (stream t) = rs" by (auto simp: delivers_def)
qed

lemma map2_decoded_Ok:
  assumes "list_all2 (\<lambda>x m. ser x = Some m \<and> length m < 2 ^ 32) objs msgs"
    and "\<forall>x \<in> set objs. \<forall>m. ser x = Some m \<longrightarrow> de_at x m = Inr x"
  shows "map2 decoded (map de_at objs) msgs = map Ok objs"
  using assms by (induction rule: list_all2_induct) (auto simp: decoded_def)

section \<open>Properties of the transport\<close>

text \<open>
  C2: Round trip of the framed transport. If a sequence of objects is sent with \<open>send_obj\<close> and all
  sends succeed, then a receiver whose stream returns the written bytes, cut into reads in any way
  (each read non-empty and within the 1024-byte buffer), receives with successive calls of
  \<open>recv_obj\<close>, each at the type of the object sent, exactly these objects in this order, makes no
  further read and is left with an empty buffer. The serialiser is assumed to invert itself.
\<close>

theorem stream_roundtrip:
  assumes "33 \<le> ptr_bits tgt"
    and codec: "\<forall>x \<in> set objs. \<forall>m. ser x = Some m \<longrightarrow> de_at x m = Inr x"
    and sent: "send_all ser objs t = (Ok (), t')" and "written (stream t) = []"
    and "concat cs = written (stream t')" and "good_chunks cs"
    and "reads (stream r) = map ReadOk cs @ rs" and "recv_buffer r = []"
  shows "\<exists>r'. recv_all tgt (map de_at objs) r = (map Ok objs, r')
    \<and> recv_buffer r' = [] \<and> reads (stream r') = rs"
proof -
  from send_all_Ok [OF sent] assms(4) obtain msgs where
    msgs: "list_all2 (\<lambda>x m. ser x = Some m \<and> length m < 2 ^ 32) objs msgs"
    and w: "written (stream t') = concat (map frame_of msgs)" by auto
  from msgs have len: "\<forall>m \<in> set msgs. length m < 2 ^ 32" "length (map de_at objs) = length msgs"
    by (auto simp: list_all2_conv_all_nth in_set_conv_nth)
  from assms(5-) w have "delivers r (concat (map frame_of msgs) @ []) cs rs"
    by (simp add: delivers_def)
  from recv_all_frames [OF assms(1) len(1) this len(2)] obtain r' cs' where
    "recv_all tgt (map de_at objs) r = (map2 decoded (map de_at objs) msgs, r')"
    "delivers r' [] cs' rs" by blast
  with map2_decoded_Ok [OF msgs codec] show ?thesis by (auto dest: delivers_Nil)
qed

text \<open>A one-byte codec and a stream, for concrete runs.\<close>

definition byte_ser :: "byte \<Rightarrow> bytes option" where
  "byte_ser x = Some [x]"

definition byte_de :: "bytes \<Rightarrow> string + byte" where
  "byte_de bs = (case bs of [x] \<Rightarrow> Inr x | _ \<Rightarrow> Inl ''length'')"

definition idle_stream :: "read_outcome list \<Rightarrow> write_outcome list \<Rightarrow> stream" where
  "idle_stream rs ws = \<lparr>reads = rs, writes = ws, written = [], flushed = 0\<rparr>"

lemma send_all_example:
  "send_all byte_ser [5, 7] (transport_from (idle_stream [] [WriteDone, WriteDone, WriteDone, WriteDone, WriteDone, WriteDone]))
   = (Ok (), \<lparr>stream = \<lparr>reads = [], writes = [], written = [1, 0, 0, 0, 5, 1, 0, 0, 0, 7],
        flushed = 10\<rparr>, recv_buffer = []\<rparr>)"
  by (simp add: send_obj_def byte_ser_def transport_from_def idle_stream_def write_all_def
      stream_flush_def to_le_bytes_def)

theorem stream_roundtrip_witness:
  "\<exists>r'. recv_all x86_64_debug [byte_de, byte_de]
       (transport_from (idle_stream (map ReadOk [[1, 0], [0, 0, 5, 1, 0, 0], [0, 7]]) []))
     = ([Ok 5, Ok 7], r') \<and> recv_buffer r' = [] \<and> reads (stream r') = []"
  using stream_roundtrip [OF _ _ send_all_example, of x86_64_debug "\<lambda>_. byte_de"
      "[[1, 0], [0, 0, 5, 1, 0, 0], [0, 7]]"
      "transport_from (idle_stream (map ReadOk [[1, 0], [0, 0, 5, 1, 0, 0], [0, 7]]) [])" "[]"]
  by (simp add: x86_64_debug_def byte_ser_def byte_de_def transport_from_def idle_stream_def)

text \<open>
  C15: Cancel safety of \<open>recv_obj\<close>, as its documentation claims: if a call is pending after some
  reads and its future is dropped there, the next call continues where it stopped. Whatever the
  later reads return, calling again gives the outcome and the transport that the first call would
  have given, had it not been cancelled.
\<close>

theorem recv_obj_cancel_safe:
  assumes "recv_obj tgt de t = (Blocked, t')"
  shows "recv_obj tgt de (extend_reads rs t') = recv_obj tgt de (extend_reads rs t)"
proof -
  from assms have inc: "split_frame tgt (recv_buffer t) = Incomplete"
    by (auto simp: recv_obj_def decoded_def split: frame_result.splits)
  with assms obtain rs' where
    loop: "recv_loop tgt de (recv_buffer t) (reads (stream t)) = (Blocked, recv_buffer t', rs')"
    and t': "t' = t\<lparr>stream := (stream t)\<lparr>reads := rs'\<rparr>, recv_buffer := recv_buffer t'\<rparr>"
    by (auto simp: recv_obj_def split: prod.splits)
  note b = recv_loop_blocked [OF loop]
  have "split_frame tgt (recv_buffer t') = Incomplete" using b(3) inc .
  moreover have "reads (stream t') = []" using t' b(1) by (cases t') simp
  ultimately show ?thesis
    using inc b(2) [of rs] t'
    by (cases t; cases t') (simp add: recv_obj_def extend_reads_def split: prod.splits)
qed

theorem recv_obj_cancel_safe_witness:
  "recv_obj x86_64_debug byte_de (transport_from (idle_stream [ReadOk [1, 0]] []))
     = (Blocked, \<lparr>stream = idle_stream [] [], recv_buffer = [1, 0]\<rparr>)
   \<and> recv_obj x86_64_debug byte_de
       (extend_reads [ReadOk [0, 0, 5]] \<lparr>stream = idle_stream [] [], recv_buffer = [1, 0]\<rparr>)
     = recv_obj x86_64_debug byte_de
       (extend_reads [ReadOk [0, 0, 5]] (transport_from (idle_stream [ReadOk [1, 0]] [])))"
proof -
  have b: "recv_obj x86_64_debug byte_de (transport_from (idle_stream [ReadOk [1, 0]] []))
     = (Blocked, \<lparr>stream = idle_stream [] [], recv_buffer = [1, 0]\<rparr>)"
    by (simp add: recv_obj_def split_frame_def transport_from_def idle_stream_def)
  from b recv_obj_cancel_safe [OF b, of "[ReadOk [0, 0, 5]]"] show ?thesis by blast
qed

text \<open>
  C16: \<open>recv_obj\<close> never panics on a target whose pointers are wider than 32 bits, whatever bytes
  the peer sends, as long as a read stays within the buffer it is given.
\<close>

theorem recv_obj_no_panic:
  assumes "33 \<le> ptr_bits tgt" and "\<forall>bs. ReadOk bs \<in> set (reads (stream t)) \<longrightarrow> length bs \<le> 1024"
  shows "fst (recv_obj tgt de t) \<noteq> Panicked"
  using recv_loop_no_panic [OF assms, of de "recv_buffer t"] split_frame_no_panic [OF assms(1), of "recv_buffer t"]
  by (auto simp: recv_obj_def decoded_def split: frame_result.splits prod.splits)

theorem recv_obj_no_panic_witness:
  "fst (recv_obj x86_64_debug byte_de
     (transport_from (idle_stream [ReadOk [255, 255, 255, 255]] []))) \<noteq> Panicked"
  by (rule recv_obj_no_panic)
    (simp_all add: x86_64_debug_def transport_from_def idle_stream_def)

text \<open>
  On a 32-bit target a peer makes \<open>recv_obj\<close> panic with four bytes: the length
  \<open>u32::MAX\<close> plus four overflows \<open>usize\<close>. A debug build panics at the addition; a release build
  wraps around to three and panics when it splits the header off a three-byte slice.
\<close>

theorem recv_obj_panics_on_32_bit:
  "fst (recv_obj \<lparr>ptr_bits = 32, debug_build = dbg\<rparr> de
     \<lparr>stream = \<lparr>reads = [ReadOk [255, 255, 255, 255]], writes = [], written = [], flushed = 0\<rparr>,
      recv_buffer = []\<rparr>) = Panicked"
proof -
  have "from_le_bytes [255, 255, 255, 255] = Some (4294967295 :: u32)"
    by (simp add: from_le_bytes_def)
  then show ?thesis
    by (cases dbg) (simp_all add: recv_obj_def split_frame_def frame_size_def usize_add_def
        u32_as_usize_def split_at_def)
qed

text \<open>
  C17: The receive buffer stays bounded: on a target wider than 32 bits, if it holds fewer than
  \<open>2^32 + 4\<close> bytes before a call that does not panic, it does so after the call, whatever is read.
\<close>

theorem recv_buffer_bounded:
  assumes "33 \<le> ptr_bits tgt" and "length (recv_buffer t) < 2 ^ 32 + 4"
    and "recv_obj tgt de t = (r, t')" and "r \<noteq> Panicked"
  shows "length (recv_buffer t') < 2 ^ 32 + 4"
proof (cases "split_frame tgt (recv_buffer t)")
  case Incomplete
  with assms(3) obtain rs' where
    "recv_loop tgt de (recv_buffer t) (reads (stream t)) = (r, recv_buffer t', rs')"
    by (auto simp: recv_obj_def split: prod.splits)
  from recv_loop_buffer_bound [OF assms(1) Incomplete this assms(4)] show ?thesis .
next
  case (Frame payload rest)
  with split_frame_size [OF Frame] assms show ?thesis by (auto simp: recv_obj_def)
next
  case FramePanic
  with assms show ?thesis by (auto simp: recv_obj_def)
qed

theorem recv_buffer_bounded_witness:
  "length (recv_buffer (snd (recv_obj x86_64_debug byte_de
     (transport_from (idle_stream [ReadOk [2, 0, 0], ReadOk [0, 5]] []))))) < 2 ^ 32 + 4"
proof -
  let ?t = "transport_from (idle_stream [ReadOk [2, 0, 0], ReadOk [0, 5]] [])"
  have run: "recv_obj x86_64_debug byte_de ?t = (Blocked, \<lparr>stream = idle_stream [] [], recv_buffer = [2, 0, 0, 0, 5]\<rparr>)"
    by (simp add: recv_obj_def split_frame_def frame_size_def from_le_bytes_def usize_add_def
        u32_as_usize_def x86_64_debug_def transport_from_def idle_stream_def)
  have "length (recv_buffer \<lparr>stream = idle_stream [] [], recv_buffer = [2, 0, 0, 0, 5]\<rparr>) < 2 ^ 32 + 4"
    by (rule recv_buffer_bounded [OF _ _ run])
      (simp_all add: x86_64_debug_def transport_from_def)
  with run show ?thesis by simp
qed

text \<open>
  A payload that does not deserialise does not desynchronise the stream. Whatever the frames
  on their way contain, successive calls of \<open>recv_obj\<close> consume exactly one frame each and return
  the deserialisation of its payload, an error included; the bytes behind the last frame stay.
\<close>

theorem recv_all_one_frame_each:
  assumes "33 \<le> ptr_bits tgt" and "\<forall>m \<in> set msgs. length m < 2 ^ 32" and "good_chunks cs"
    and "concat cs = concat (map frame_of msgs) @ rest" and "length des = length msgs"
  shows "\<exists>t' cs'. recv_all tgt des (transport_from (idle_stream (map ReadOk cs @ rs) ws))
      = (map2 (\<lambda>de m. try_map DeserializeError (de m)) des msgs, t')
    \<and> reads (stream t') = map ReadOk cs' @ rs \<and> recv_buffer t' @ concat cs' = rest"
proof -
  from assms(3,4) have "delivers (transport_from (idle_stream (map ReadOk cs @ rs) ws))
      (concat (map frame_of msgs) @ rest) cs rs"
    by (simp add: delivers_def transport_from_def idle_stream_def)
  from recv_all_frames [OF assms(1,2) this assms(5)] show ?thesis
    by (auto simp: delivers_def decoded_def [abs_def])
qed

theorem recv_all_one_frame_each_witness:
  "\<exists>t' cs'. recv_all x86_64_debug [byte_de, byte_de]
       (transport_from (idle_stream (map ReadOk [[2, 0, 0, 0, 8, 9, 1], [0, 0, 0, 7, 3]] @ []) []))
     = ([Err (DeserializeError ''length''), Ok 7], t')
   \<and> reads (stream t') = map ReadOk cs' @ [] \<and> recv_buffer t' @ concat cs' = [3]"
  using recv_all_one_frame_each [of x86_64_debug "[[8, 9], [7]]"
      "[[2, 0, 0, 0, 8, 9, 1], [0, 0, 0, 7, 3]]" "[3]" "[byte_de, byte_de]" "[]" "[]"]
  by (simp add: x86_64_debug_def byte_de_def frame_of_def to_le_bytes_def)

text \<open>
  A stream that ends inside a frame is reported as \<open>UnexpectedEof\<close>, never as an object, and the
  bytes read so far stay in the buffer.
\<close>

theorem recv_obj_eof:
  assumes "33 \<le> ptr_bits tgt" and "length msg < 2 ^ 32" and "good_chunks cs"
    and "concat cs @ lost = frame_of msg" and "lost \<noteq> []"
  shows "recv_obj tgt de (transport_from (idle_stream (map ReadOk cs @ ReadOk [] # rs) ws))
    = (Err (IOError (IoErr UnexpectedEof [])),
       \<lparr>stream = idle_stream rs ws, recv_buffer = concat cs\<rparr>)"
proof -
  have "recv_loop tgt de buf (map ReadOk cs @ ReadOk [] # rs)
      = (Err (IOError (IoErr UnexpectedEof [])), buf @ concat cs, rs)"
    if "good_chunks cs" and "buf @ concat cs @ lost = frame_of msg" for buf cs
    using that
  proof (induction cs arbitrary: buf)
    case (Cons c cs)
    from Cons.prems(2) have eq: "(buf @ c) @ (concat cs @ lost) = frame_of msg @ []" by simp
    then have "length (buf @ c) + length (concat cs @ lost) = 4 + length msg"
      by (metis append_Nil2 length_append length_frame_of)
    with assms(5) have "length (buf @ c) < 4 + length msg" by (cases lost) auto
    with split_frame_partial [OF assms(1,2) eq] have "split_frame tgt (buf @ c) = Incomplete" .
    with Cons show ?case by simp
  qed simp
  from this [OF assms(3), of "[]"] assms(4) show ?thesis
    by (simp add: recv_obj_def transport_from_def idle_stream_def split_frame_def)
qed

theorem recv_obj_eof_witness:
  "recv_obj x86_64_debug byte_de (transport_from (idle_stream (map ReadOk [[1, 0, 0], [0]] @ [ReadOk []]) []))
   = (Err (IOError (IoErr UnexpectedEof [])), \<lparr>stream = idle_stream [] [], recv_buffer = [1, 0, 0, 0]\<rparr>)"
  using recv_obj_eof [of x86_64_debug "[9]" "[[1, 0, 0], [0]]" "[9]" byte_de "[]" "[]"]
  by (simp add: x86_64_debug_def frame_of_def to_le_bytes_def)

text \<open>
  C32: \<open>send_obj\<close> returns \<open>Ok\<close> only after it has written one whole frame (the length of the
  serialised object, then its bytes) and flushed the stream; it never touches the receiving side.
\<close>

theorem send_obj_writes_one_frame:
  assumes "send_obj ser obj t = (Ok (), t')"
  shows "\<exists>msg. ser obj = Some msg \<and> length msg < 2 ^ 32
    \<and> written (stream t') = written (stream t) @ to_le_bytes (of_nat (length msg)) @ msg
    \<and> flushed (stream t') = length (written (stream t'))
    \<and> recv_buffer t' = recv_buffer t \<and> reads (stream t') = reads (stream t)"
  using send_obj_Ok [OF assms] by (metis frame_of_def)

theorem send_obj_writes_one_frame_witness:
  "\<exists>msg. byte_ser 9 = Some msg \<and> length msg < 2 ^ 32
    \<and> ([1, 0, 0, 0, 9] :: bytes) = [] @ to_le_bytes (of_nat (length msg)) @ msg"
proof -
  have "send_obj byte_ser 9 (transport_from (idle_stream [] [WriteDone, WriteDone, WriteDone]))
    = (Ok (), \<lparr>stream = \<lparr>reads = [], writes = [], written = [1, 0, 0, 0, 9], flushed = 5\<rparr>,
              recv_buffer = []\<rparr>)"
    by (simp add: send_obj_def byte_ser_def transport_from_def idle_stream_def write_all_def
        stream_flush_def to_le_bytes_def)
  from send_obj_writes_one_frame [OF this] show ?thesis
    by (simp add: transport_from_def idle_stream_def)
qed

text \<open>
  \<open>send_obj\<close> is not cancel safe, as its documentation says. If the future is dropped after the
  header and the object is sent again, the receiver does not get the object: it takes the first
  byte of the second header for the payload and fails to decode or decodes something else.
\<close>

theorem send_obj_not_cancel_safe:
  "let (r1, t1) = send_obj byte_ser 9 (transport_from (idle_stream []
         [WriteDone, WriteStall 0, WriteDone, WriteDone, WriteDone]));
       (r2, t2) = send_obj byte_ser 9 t1
   in r1 = Blocked \<and> r2 = Ok ()
      \<and> fst (recv_obj x86_64_debug byte_de
          (transport_from (idle_stream [ReadOk (written (stream t2))] []))) = Ok 1"
  by (simp add: send_obj_def byte_ser_def byte_de_def transport_from_def idle_stream_def
      write_all_def stream_flush_def to_le_bytes_def recv_obj_def split_frame_def frame_size_def
      from_le_bytes_def usize_add_def u32_as_usize_def x86_64_debug_def split_at_def decoded_def)

text \<open>
  \<open>send_obj\<close> panics exactly when the object does not serialise or its serialisation does not
  fit the \<open>u32\<close> length field, and then it has written nothing.
\<close>

theorem send_obj_panics_iff:
  "(fst (send_obj ser obj t) = Panicked
      \<longleftrightarrow> (case ser obj of None \<Rightarrow> True | Some msg \<Rightarrow> 2 ^ 32 \<le> length msg))
   \<and> (send_obj ser obj t = (Panicked, t)
      \<longleftrightarrow> (case ser obj of None \<Rightarrow> True | Some msg \<Rightarrow> 2 ^ 32 \<le> length msg))"
proof -
  have "fst (write_all bs s) \<noteq> Panicked" "fst (stream_flush s) \<noteq> Panicked" for bs s
    by (simp_all add: write_all_def stream_flush_def split: list.splits write_outcome.splits)
  then have "fst (and_then (write_all b1 s) (\<lambda>_ s. and_then (write_all b2 s) (\<lambda>_ s. stream_flush s)))
      \<noteq> Panicked" for b1 b2 s
    by (auto simp: and_then_def split: prod.splits res.splits) (metis fst_conv)+
  then have nopanic: "fst (send_obj ser obj t) \<noteq> Panicked"
    if "ser obj = Some msg" "\<not> 2 ^ 32 \<le> length msg" for msg
    using that by (simp add: send_obj_def)
  show ?thesis
  proof (cases "ser obj")
    case None
    then show ?thesis by (simp add: send_obj_def)
  next
    case (Some msg)
    show ?thesis
    proof (cases "2 ^ 32 \<le> length msg")
      case True
      with Some show ?thesis by (simp add: send_obj_def)
    next
      case False
      with nopanic [OF Some] have "fst (send_obj ser obj t) \<noteq> Panicked" by simp
      with Some False show ?thesis by (metis (no_types, lifting) fst_conv option.simps(5))
    qed
  qed
qed

section \<open>The transport as a first-in first-out link\<close>

text \<open>
  The contract that the users of the \<open>UpgradeTransport\<close> trait rely on: a link is a queue of
  objects, a send appends one, a receive takes the oldest.
\<close>

datatype 'o link_op = Put 'o | Get

fun run_link :: "('o \<Rightarrow> 's \<Rightarrow> 's) \<Rightarrow> ('s \<Rightarrow> ('o \<times> 's) option) \<Rightarrow> 's \<Rightarrow> 'o link_op list \<Rightarrow> 'o list \<times> 's"
  where
  "run_link put get s [] = ([], s)"
| "run_link put get s (Put x # ops) = run_link put get (put x s) ops"
| "run_link put get s (Get # ops) = (case get s of
      None \<Rightarrow> run_link put get s ops
    | Some (x, s') \<Rightarrow> apfst (Cons x) (run_link put get s' ops))"

fun puts :: "'o link_op list \<Rightarrow> 'o list" where
  "puts [] = []"
| "puts (Put x # ops) = x # puts ops"
| "puts (Get # ops) = puts ops"

locale object_link =
  fixes put :: "'o \<Rightarrow> 's \<Rightarrow> 's" and get :: "'s \<Rightarrow> ('o \<times> 's) option"
    and queue :: "'s \<Rightarrow> 'o list" and sendable :: "'o \<Rightarrow> bool" and valid :: "'s \<Rightarrow> bool"
  assumes queue_put: "valid s \<Longrightarrow> sendable x \<Longrightarrow> queue (put x s) = queue s @ [x]"
    and valid_put: "valid s \<Longrightarrow> sendable x \<Longrightarrow> valid (put x s)"
    and get_None: "valid s \<Longrightarrow> get s = None \<Longrightarrow> queue s = []"
    and get_Some: "valid s \<Longrightarrow> get s = Some (x, s') \<Longrightarrow> queue s = x # queue s' \<and> valid s'"
begin

lemma run_link_fifo:
  assumes "valid s" and "\<forall>x \<in> set (puts ops). sendable x"
  shows "fst (run_link put get s ops) @ queue (snd (run_link put get s ops)) = queue s @ puts ops"
  using assms
proof (induction ops arbitrary: s)
  case (Cons op ops)
  show ?case
  proof (cases op)
    case (Put x)
    with Cons show ?thesis by (simp add: queue_put valid_put)
  next
    case Get
    show ?thesis
    proof (cases "get s")
      case None
      with Get Cons show ?thesis by simp
    next
      case (Some r)
      obtain x s' where r: "r = (x, s')" by (cases r)
      with Some Cons.prems(1) have "queue s = x # queue s'" "valid s'"
        by (auto dest: get_Some)
      with Get Some r Cons.IH [of s'] Cons.prems(2) show ?thesis by simp
    qed
  qed
qed simp

end

text \<open>The frames on the wire: sending appends a frame, receiving takes one off the front.\<close>

definition wire_put :: "bytes \<Rightarrow> bytes \<Rightarrow> bytes" where
  "wire_put msg wire = wire @ frame_of msg"

definition wire_get :: "target \<Rightarrow> bytes \<Rightarrow> (bytes \<times> bytes) option" where
  "wire_get tgt wire = (case split_frame tgt wire of Frame m rest \<Rightarrow> Some (m, rest) | _ \<Rightarrow> None)"

function unframe :: "target \<Rightarrow> bytes \<Rightarrow> bytes list" where
  "unframe tgt wire = (case split_frame tgt wire of Frame m rest \<Rightarrow> m # unframe tgt rest | _ \<Rightarrow> [])"
  by pat_completeness auto
termination
  by (relation "measure (\<lambda>(tgt, wire). length wire)") (auto dest: split_frame_size)

declare unframe.simps [simp del]

definition whole_frames :: "bytes \<Rightarrow> bool" where
  "whole_frames wire \<longleftrightarrow>
     (\<exists>msgs. wire = concat (map frame_of msgs) \<and> (\<forall>m \<in> set msgs. length m < 2 ^ 32))"

lemma unframe_frames [simp]:
  assumes "33 \<le> ptr_bits tgt" and "\<forall>m \<in> set msgs. length m < 2 ^ 32"
  shows "unframe tgt (concat (map frame_of msgs)) = msgs"
  using assms(2)
proof (induction msgs)
  case Nil
  show ?case by (simp add: unframe.simps split_frame_def)
next
  case (Cons m msgs)
  then show ?case
    by (subst unframe.simps) (simp add: split_frame_complete [OF assms(1)])
qed

lemma whole_framesI [intro]:
  "\<forall>m \<in> set msgs. length m < 2 ^ 32 \<Longrightarrow> whole_frames (concat (map frame_of msgs))"
  by (auto simp: whole_frames_def)

lemma wire_link:
  assumes "33 \<le> ptr_bits tgt"
  shows "object_link wire_put (wire_get tgt) (unframe tgt) (\<lambda>m. length m < 2 ^ 32) whole_frames"
proof unfold_locales
  fix wire x :: bytes
  assume "whole_frames wire" "length x < 2 ^ 32"
  then obtain msgs where "wire = concat (map frame_of msgs)" "\<forall>m \<in> set (msgs @ [x]). length m < 2 ^ 32"
    by (auto simp: whole_frames_def)
  moreover from this have "wire_put x wire = concat (map frame_of (msgs @ [x]))"
    by (simp add: wire_put_def)
  ultimately show "unframe tgt (wire_put x wire) = unframe tgt wire @ [x]" "whole_frames (wire_put x wire)"
    using assms whole_framesI [of "msgs @ [x]"] by (simp_all del: concat_append map_append)
next
  fix wire :: bytes
  assume "wire_get tgt wire = None"
  then show "unframe tgt wire = []"
    by (subst unframe.simps) (auto simp: wire_get_def split: frame_result.splits)
next
  fix wire x wire' :: bytes
  assume "whole_frames wire" and got: "wire_get tgt wire = Some (x, wire')"
  then obtain msgs where msgs: "wire = concat (map frame_of msgs)" "\<forall>m \<in> set msgs. length m < 2 ^ 32"
    by (auto simp: whole_frames_def)
  with got obtain m ms where "msgs = m # ms"
    by (cases msgs) (auto simp: wire_get_def split_frame_def)
  with msgs have "unframe tgt wire = m # ms" "split_frame tgt wire = Frame m (concat (map frame_of ms))"
    "unframe tgt (concat (map frame_of ms)) = ms"
    using unframe_frames [OF assms, of "m # ms"] split_frame_complete [OF assms, of m]
      unframe_frames [OF assms, of ms] by simp_all
  with got msgs \<open>msgs = m # ms\<close> whole_framesI [of ms]
  show "unframe tgt wire = x # unframe tgt wire' \<and> whole_frames wire'"
    by (auto simp: wire_get_def)
qed

interpretation wire: object_link wire_put "wire_get x86_64_debug" "unframe x86_64_debug"
  "\<lambda>m. length m < 2 ^ 32" whole_frames
  by (rule wire_link) (simp add: x86_64_debug_def)

text \<open>
  C14: First in, first out, on the bytes. In every interleaving of sends and receives on a wire that
  starts empty, the payloads received so far followed by the payloads still framed on the wire are
  exactly the payloads sent, in the order they were sent: none is lost, repeated or reordered.
\<close>

theorem wire_fifo:
  assumes "\<forall>m \<in> set (puts ops). length m < 2 ^ 32"
  shows "fst (run_link wire_put (wire_get x86_64_debug) [] ops)
      @ unframe x86_64_debug (snd (run_link wire_put (wire_get x86_64_debug) [] ops)) = puts ops"
proof -
  have "whole_frames []" using whole_framesI [of "[]"] by simp
  moreover have "unframe x86_64_debug [] = []"
    using unframe_frames [of x86_64_debug "[]"] by (simp add: x86_64_debug_def)
  ultimately show ?thesis using wire.run_link_fifo [OF _ assms, of "[]"] by simp
qed

theorem wire_fifo_witness:
  "fst (run_link wire_put (wire_get x86_64_debug) [] [Put [5], Get, Put [6, 7], Put [], Get])
     @ unframe x86_64_debug
         (snd (run_link wire_put (wire_get x86_64_debug) [] [Put [5], Get, Put [6, 7], Put [], Get]))
   = [[5], [6, 7], []]"
  using wire_fifo [of "[Put [5], Get, Put [6, 7], Put [], Get]"] by simp

end
