(* ===== verification/Rtc_Types.thy ===== *)
theory Rtc_Types
  imports Transport
begin

text \<open>
  The constants and the wire messages of \<open>upgrade2webrtc/src/lib.rs\<close>, and the interface to the
  \<open>webrtc\<close> crate. The crate is a parameter: every awaited call is a function from the history of
  the effects so far to an outcome, so that a theorem about all such functions covers every
  behaviour of the crate, failures and calls that never return included. Session descriptions,
  candidates and data channels are values of type variables.
\<close>

section \<open>Constants\<close>

definition STUN_SERVERS :: "string list" where
  "STUN_SERVERS =
    [''stun:stun.l.google.com:19302'',
     ''stun:stun1.l.google.com:19302'',
     ''stun:stun2.l.google.com:19302'',
     ''stun:stun3.l.google.com:19302'',
     ''stun:stun4.l.google.com:19302'',
     ''stun:stun01.sipphone.com'',
     ''stun:stun.ekiga.net'',
     ''stun:stun.fwdnet.net'',
     ''stun:stun.ideasip.com'',
     ''stun:stun.iptel.org'',
     ''stun:stun.rixtelecom.se'',
     ''stun:stun.schlund.de'',
     ''stun:stunserver.org'',
     ''stun:stun.softjoys.com'',
     ''stun:stun.voiparound.com'',
     ''stun:stun.voipbuster.com'',
     ''stun:stun.voipstunt.com'',
     ''stun:stun.voxgratia.org'',
     ''stun:stun.xten.com'']"

record RTCDataChannelInit =
  ordered :: "bool option"
  max_packet_life_time :: "u16 option"
  max_retransmits :: "u16 option"
  protocol :: "string option"
  negotiated :: "u16 option"

definition TCP_DATA_CHANNEL :: RTCDataChannelInit where
  "TCP_DATA_CHANNEL = \<lparr>ordered = Some True, max_packet_life_time = None,
     max_retransmits = Some 65535, protocol = None, negotiated = None\<rparr>"

definition UDP_DATA_CHANNEL :: RTCDataChannelInit where
  "UDP_DATA_CHANNEL = \<lparr>ordered = Some False, max_packet_life_time = None,
     max_retransmits = Some 0, protocol = None, negotiated = None\<rparr>"

definition RELIABLE_UNORDERED_DATA_CHANNEL :: RTCDataChannelInit where
  "RELIABLE_UNORDERED_DATA_CHANNEL = \<lparr>ordered = Some False, max_packet_life_time = None,
     max_retransmits = Some 65535, protocol = None, negotiated = None\<rparr>"

section \<open>Wire messages\<close>

datatype ('sdp, 'init) RTCMessage = SDPAnswer 'sdp | ICE 'init

text \<open>
  The objects that cross the transport, with the Rust type they are serialised at: the offer
  (\<open>RTCSessionDescription\<close>), the server's answer (\<open>RTCMessage\<close>), the server's candidates
  (\<open>Option<RTCMessage>\<close>) and the client's candidates (\<open>Option<RTCIceCandidate>\<close>). \<open>bitcode\<close> is
  not self-describing, so a reader has to ask for the type the writer used.
\<close>

datatype ('sdp, 'cand, 'init) wire_obj =
    WOffer 'sdp
  | WMsg "('sdp, 'init) RTCMessage"
  | WOptMsg "('sdp, 'init) RTCMessage option"
  | WOptCand "'cand option"

section \<open>Histories of effects\<close>

datatype ('sdp, 'cand, 'init, 'err) rtc_action =
    NewPeer
  | CreateDataChannel string RTCDataChannelInit
  | CreateOffer
  | CreateAnswer
  | SetLocalDescription 'sdp
  | SetRemoteDescription 'sdp
  | RegisterOnDataChannel
  | RegisterOnIceCandidate
  | AddIceCandidate 'init
  | SendObj "('sdp, 'cand, 'init) wire_obj"
  | RecvObj "('sdp, 'cand, 'init) wire_obj"
  | CloseDataChannel string
  | ClosePeer
  | OnSuccess string
  | OnErr 'err

type_synonym ('sdp, 'cand, 'init, 'err) history = "('sdp, 'cand, 'init, 'err) rtc_action list"

text \<open>The calls into the \<open>webrtc\<close> crate and the \<open>send_obj\<close> of the transport in use.\<close>

record ('sdp, 'cand, 'init, 'chan, 'werr, 'err) webrtc_env =
  new_peer_connection :: "('sdp, 'cand, 'init, 'err) history \<Rightarrow> ('werr, unit) res"
  create_data_channel :: "string \<Rightarrow> RTCDataChannelInit
    \<Rightarrow> ('sdp, 'cand, 'init, 'err) history \<Rightarrow> ('werr, 'chan) res"
  create_offer :: "('sdp, 'cand, 'init, 'err) history \<Rightarrow> ('werr, 'sdp) res"
  create_answer :: "('sdp, 'cand, 'init, 'err) history \<Rightarrow> ('werr, 'sdp) res"
  set_local_description :: "'sdp \<Rightarrow> ('sdp, 'cand, 'init, 'err) history \<Rightarrow> ('werr, unit) res"
  set_remote_description :: "'sdp \<Rightarrow> ('sdp, 'cand, 'init, 'err) history \<Rightarrow> ('werr, unit) res"
  add_ice_candidate :: "'init \<Rightarrow> ('sdp, 'cand, 'init, 'err) history \<Rightarrow> ('werr, unit) res"
  cand_to_json :: "'cand \<Rightarrow> 'werr + 'init"
  transport_send :: "('sdp, 'cand, 'init) wire_obj
    \<Rightarrow> ('sdp, 'cand, 'init, 'err) history \<Rightarrow> (io_error, unit) res"

text \<open>An awaited call: its outcome, with the error converted, and the history with the call.\<close>

definition perform ::
  "'act \<Rightarrow> ('e \<Rightarrow> 'f) \<Rightarrow> ('act list \<Rightarrow> ('e, 'a) res) \<Rightarrow> 'act list \<Rightarrow> ('f, 'a) res \<times> 'act list" where
  "perform act f call h = (map_res f id (call h), h @ [act])"

text \<open>
  The contract of the parameters that liveness rests on: no call of the crate and no send fails,
  panics or stays pending.
\<close>

definition env_succeeds :: "('sdp, 'cand, 'init, 'chan, 'werr, 'err) webrtc_env \<Rightarrow> bool" where
  "env_succeeds env \<longleftrightarrow>
     (\<forall>h. new_peer_connection env h = Ok ()) \<and>
     (\<forall>l c h. \<exists>ch. create_data_channel env l c h = Ok ch) \<and>
     (\<forall>h. \<exists>d. create_offer env h = Ok d) \<and> (\<forall>h. \<exists>d. create_answer env h = Ok d) \<and>
     (\<forall>d h. set_local_description env d h = Ok ()) \<and>
     (\<forall>d h. set_remote_description env d h = Ok ()) \<and>
     (\<forall>i h. add_ice_candidate env i h = Ok ()) \<and>
     (\<forall>c. \<exists>i. cand_to_json env c = Inr i) \<and>
     (\<forall>x h. transport_send env x h = Ok ())"

lemma env_succeedsD:
  assumes "env_succeeds env"
  shows "new_peer_connection env h = Ok ()" "\<exists>ch. create_data_channel env l c h = Ok ch"
    "\<exists>d. create_offer env h = Ok d" "\<exists>d. create_answer env h = Ok d"
    "set_local_description env d h = Ok ()" "set_remote_description env d h = Ok ()"
    "add_ice_candidate env i h = Ok ()" "\<exists>i. cand_to_json env cand = Inr i"
    "transport_send env x h = Ok ()"
  using assms by (simp_all add: env_succeeds_def)

text \<open>Weaker contracts: no call of the crate panics; the sends are those of the framed transport.\<close>

definition rtc_no_panic :: "('sdp, 'cand, 'init, 'chan, 'werr, 'err) webrtc_env \<Rightarrow> bool" where
  "rtc_no_panic env \<longleftrightarrow> (\<forall>h. new_peer_connection env h \<noteq> Panicked
     \<and> (\<forall>l c. create_data_channel env l c h \<noteq> Panicked)
     \<and> create_offer env h \<noteq> Panicked \<and> create_answer env h \<noteq> Panicked
     \<and> (\<forall>d. set_local_description env d h \<noteq> Panicked) \<and> (\<forall>d. set_remote_description env d h \<noteq> Panicked)
     \<and> (\<forall>i. add_ice_candidate env i h \<noteq> Panicked))"

definition framed_sends ::
  "(('sdp, 'cand, 'init) wire_obj \<Rightarrow> bytes option) \<Rightarrow> ('sdp, 'cand, 'init, 'chan, 'werr, 'err) webrtc_env \<Rightarrow> bool" where
  "framed_sends ser env \<longleftrightarrow> (\<forall>x h. \<exists>t. transport_send env x h = fst (send_obj ser x t))"

text \<open>Every object that is sent serialises, to less than 4 GiB.\<close>

definition sendable :: "('o \<Rightarrow> bytes option) \<Rightarrow> bool" where
  "sendable ser \<longleftrightarrow> (\<forall>x. \<exists>m. ser x = Some m \<and> length m < 2 ^ 32)"

lemma rtc_no_panicD:
  assumes "rtc_no_panic env"
  shows "new_peer_connection env h \<noteq> Panicked" "create_data_channel env l c h \<noteq> Panicked"
    "create_offer env h \<noteq> Panicked" "set_local_description env d h \<noteq> Panicked"
    "set_remote_description env d h \<noteq> Panicked" "add_ice_candidate env i h \<noteq> Panicked"
  using assms by (auto simp: rtc_no_panic_def)

lemma framed_sends_no_panic:
  assumes "framed_sends ser env" and "sendable ser"
  shows "transport_send env x h \<noteq> Panicked"
proof -
  from assms obtain t m where "transport_send env x h = fst (send_obj ser x t)" "ser x = Some m" "length m < 2 ^ 32"
    unfolding framed_sends_def sendable_def by blast
  then show ?thesis using send_obj_panics_iff [of ser x t] by (simp add: not_le)
qed

text \<open>A concrete environment that succeeds, for evaluating runs.\<close>

definition ok_env :: "(nat, nat, nat, nat, unit, 'err) webrtc_env" where
  "ok_env = \<lparr>new_peer_connection = (\<lambda>h. Ok ()), create_data_channel = (\<lambda>l c h. Ok (length h)),
     create_offer = (\<lambda>h. Ok 1), create_answer = (\<lambda>h. Ok 2),
     set_local_description = (\<lambda>d h. Ok ()), set_remote_description = (\<lambda>d h. Ok ()),
     add_ice_candidate = (\<lambda>i h. Ok ()), cand_to_json = (\<lambda>c. Inr (c + 100)),
     transport_send = (\<lambda>x h. Ok ())\<rparr>"

lemma ok_env_simps [simp]:
  "new_peer_connection ok_env h = Ok ()" "create_data_channel ok_env l c h = Ok (length h)"
  "create_offer ok_env h = Ok 1" "create_answer ok_env h = Ok 2"
  "set_local_description ok_env d h = Ok ()" "set_remote_description ok_env d h = Ok ()"
  "add_ice_candidate ok_env i h = Ok ()" "cand_to_json ok_env cand = Inr (cand + 100)"
  "transport_send ok_env x h = Ok ()"
  by (simp_all add: ok_env_def)

lemma ok_env_succeeds: "env_succeeds ok_env"
  by (simp add: env_succeeds_def)

section \<open>Projections of a history\<close>

fun sent_of :: "('sdp, 'cand, 'init, 'err) rtc_action \<Rightarrow> ('sdp, 'cand, 'init) wire_obj option" where
  "sent_of (SendObj x) = Some x"
| "sent_of _ = None"

fun received_of :: "('sdp, 'cand, 'init, 'err) rtc_action \<Rightarrow> ('sdp, 'cand, 'init) wire_obj option"
  where
  "received_of (RecvObj x) = Some x"
| "received_of _ = None"

fun added_of :: "('sdp, 'cand, 'init, 'err) rtc_action \<Rightarrow> 'init option" where
  "added_of (AddIceCandidate x) = Some x"
| "added_of _ = None"

definition sent :: "('sdp, 'cand, 'init, 'err) history \<Rightarrow> ('sdp, 'cand, 'init) wire_obj list" where
  "sent h = List.map_filter sent_of h"

definition received :: "('sdp, 'cand, 'init, 'err) history \<Rightarrow> ('sdp, 'cand, 'init) wire_obj list"
  where
  "received h = List.map_filter received_of h"

definition added :: "('sdp, 'cand, 'init, 'err) history \<Rightarrow> 'init list" where
  "added h = List.map_filter added_of h"

named_theorems history_simps \<open>projections of histories\<close>

lemma map_filter_append [simp]:
  "List.map_filter f (xs @ ys) = List.map_filter f xs @ List.map_filter f ys"
  by (simp add: List.map_filter_def)

lemma projection_simps [simp, history_simps]:
  "sent [] = []" "sent (h @ h') = sent h @ sent h'"
  "sent (a # h) = (case sent_of a of None \<Rightarrow> sent h | Some x \<Rightarrow> x # sent h)"
  "received [] = []" "received (h @ h') = received h @ received h'"
  "received (a # h) = (case received_of a of None \<Rightarrow> received h | Some x \<Rightarrow> x # received h)"
  "added [] = []" "added (h @ h') = added h @ added h'"
  "added (a # h) = (case added_of a of None \<Rightarrow> added h | Some x \<Rightarrow> x # added h)"
  by (simp_all add: sent_def received_def added_def List.map_filter_def split: option.splits)

lemma perform_Ok [simp]:
  "perform act f call h = (Ok x, h') \<longleftrightarrow> call h = Ok x \<and> h' = h @ [act]"
  by (cases "call h") (auto simp: perform_def)

lemma snd_perform [simp]: "snd (perform act f call h) = h @ [act]"
  by (simp add: perform_def)

lemma perform_cases:
  obtains (Done) x where "call h = Ok x" "perform act f call h = (Ok x, h @ [act])"
  | (Fail) e where "call h = Err e" "perform act f call h = (Err (f e), h @ [act])"
  | (Panic) "call h = Panicked" "perform act f call h = (Panicked, h @ [act])"
  | (Wait) "call h = Blocked" "perform act f call h = (Blocked, h @ [act])"
  by (cases "call h") (auto simp: perform_def)

end
