(* ===== verification/Trickle.thy ===== *)
theory Trickle
  imports Rtc_Types
begin

text \<open>
  The candidate exchange that ends the upgrade on both sides: a loop around \<open>select!\<close> with two
  flags, left when both directions have seen their end marker. Client and server have the same
  loop around different bodies; the contract of a body is a locale, and what the loop achieves is
  proved once from it.
\<close>

record ice_flags =
  done_sending_ice :: bool
  done_receiving_ice :: bool

definition no_flags :: ice_flags where
  "no_flags = \<lparr>done_sending_ice = False, done_receiving_ice = False\<rparr>"

text \<open>One turn of the body either breaks (\<open>Inl\<close>) or goes on with new flags (\<open>Inr\<close>).\<close>

type_synonym ('ev, 'e, 'h) trickle_body =
  "'ev \<Rightarrow> ice_flags \<Rightarrow> 'h \<Rightarrow> ('e, unit + ice_flags) res \<times> 'h"

fun trickle_loop :: "('ev, 'e, 'h) trickle_body \<Rightarrow> 'ev list \<Rightarrow> ice_flags \<Rightarrow> 'h \<Rightarrow> ('e, unit) res \<times> 'h"
  where
  "trickle_loop body [] fl h = (Blocked, h)"
| "trickle_loop body (ev # evs) fl h =
     and_then (body ev fl h) (\<lambda>r h. case r of
         Inl _ \<Rightarrow> (Ok (), h)
       | Inr fl' \<Rightarrow> trickle_loop body evs fl' h)"

text \<open>The flags after a turn, \<open>None\<close> once the loop has been left, and what they say.\<close>

definition flags_after :: "unit + ice_flags \<Rightarrow> ice_flags option" where
  "flags_after r = (case r of Inl _ \<Rightarrow> None | Inr fl \<Rightarrow> Some fl)"

definition sending_done :: "ice_flags option \<Rightarrow> bool" where
  "sending_done fl = (case fl of None \<Rightarrow> True | Some fl \<Rightarrow> done_sending_ice fl)"

definition receiving_done :: "ice_flags option \<Rightarrow> bool" where
  "receiving_done fl = (case fl of None \<Rightarrow> True | Some fl \<Rightarrow> done_receiving_ice fl)"

definition flags_ok :: "ice_flags option \<Rightarrow> bool" where
  "flags_ok fl \<longleftrightarrow> (fl = None \<longleftrightarrow> sending_done fl \<and> receiving_done fl)"

text \<open>What a step keeps of the history, the loop keeps.\<close>

lemma trickle_loop_history:
  assumes "P h" and "\<And>ev fl h. P h \<Longrightarrow> P (snd (body ev fl h))"
  shows "P (snd (trickle_loop body evs fl h))"
  using assms(1)
proof (induction evs arbitrary: fl h)
  case (Cons ev evs)
  then show ?case
    by (auto intro!: and_then_history [where P = P] assms(2) split: sum.split)
qed simp

text \<open>
  The contract of a body: which events it survives, what they send, receive and add, which of them
  end a direction, and that it breaks exactly when both directions have ended.
\<close>

locale trickle =
  fixes body :: "('ev, 'e, ('sdp, 'cand, 'init, 'err) history) trickle_body"
    and good :: "'ev \<Rightarrow> bool" and local_end :: "'ev \<Rightarrow> bool" and remote_end :: "'ev \<Rightarrow> bool"
    and sends :: "'ev \<Rightarrow> ('sdp, 'cand, 'init) wire_obj list"
    and takes :: "'ev \<Rightarrow> ('sdp, 'cand, 'init) wire_obj list"
    and adds :: "'ev \<Rightarrow> 'init list"
  assumes body_effects: "body ev fl h = (Ok r, h') \<Longrightarrow> good ev \<and> sent h' = sent h @ sends ev
      \<and> received h' = received h @ takes ev \<and> added h' = added h @ adds ev"
    and body_flags: "body ev fl h = (Ok (Inr fl'), h') \<Longrightarrow>
      (done_sending_ice fl' \<longleftrightarrow> done_sending_ice fl \<or> local_end ev)
      \<and> (done_receiving_ice fl' \<longleftrightarrow> done_receiving_ice fl \<or> remote_end ev)"
    and body_break: "body ev fl h = (Ok (Inl u), h') \<Longrightarrow>
      (done_sending_ice fl \<or> local_end ev) \<and> (done_receiving_ice fl \<or> remote_end ev)"
    and body_goes_on: "body ev fl h = (Ok (Inr fl'), h') \<Longrightarrow>
      \<not> (done_sending_ice fl \<and> done_receiving_ice fl) \<Longrightarrow>
      \<not> (done_sending_ice fl' \<and> done_receiving_ice fl')"
begin

lemma body_after:
  assumes "body ev fl h = (Ok r, h')" and "flags_ok (Some fl)"
  shows "sending_done (flags_after r) = (done_sending_ice fl \<or> local_end ev)"
    and "receiving_done (flags_after r) = (done_receiving_ice fl \<or> remote_end ev)"
    and "flags_ok (flags_after r)"
proof -
  have "(sending_done (flags_after r) = (done_sending_ice fl \<or> local_end ev))
    \<and> (receiving_done (flags_after r) = (done_receiving_ice fl \<or> remote_end ev)) \<and> flags_ok (flags_after r)"
  proof (cases r)
    case (Inl u)
    with body_break [of ev fl h u h'] assms show ?thesis
      by (auto simp: flags_after_def sending_done_def receiving_done_def flags_ok_def)
  next
    case (Inr fl')
    with body_flags [of ev fl h fl' h'] body_goes_on [of ev fl h fl' h'] assms show ?thesis
      by (auto simp: flags_after_def sending_done_def receiving_done_def flags_ok_def)
  qed
  then show "sending_done (flags_after r) = (done_sending_ice fl \<or> local_end ev)"
    "receiving_done (flags_after r) = (done_receiving_ice fl \<or> remote_end ev)" "flags_ok (flags_after r)"
    by simp_all
qed

lemma loop_effects:
  assumes "trickle_loop body evs fl h = (Ok u, h')"
  shows "\<exists>used rest. evs = used @ rest \<and> (\<forall>ev \<in> set used. good ev)
    \<and> sent h' = sent h @ concat (map sends used)
    \<and> received h' = received h @ concat (map takes used)
    \<and> added h' = added h @ concat (map adds used)
    \<and> (done_sending_ice fl \<or> (\<exists>ev \<in> set used. local_end ev))
    \<and> (done_receiving_ice fl \<or> (\<exists>ev \<in> set used. remote_end ev))"
  using assms
proof (induction evs arbitrary: fl h)
  case (Cons ev evs)
  from Cons.prems obtain r h1 where
    step: "body ev fl h = (Ok r, h1)" and
    rest: "(case r of Inl _ \<Rightarrow> (Ok (), h1) | Inr fl' \<Rightarrow> trickle_loop body evs fl' h1) = (Ok u, h')"
    by auto
  show ?case
  proof (cases r)
    case (Inl v)
    with rest body_effects [OF step] body_break [OF step [unfolded Inl]] show ?thesis
      by - (rule exI [of _ "[ev]"], rule exI [of _ evs], auto)
  next
    case (Inr fl')
    with rest have "trickle_loop body evs fl' h1 = (Ok u, h')" by simp
    from Cons.IH [OF this] obtain used rest where
      "evs = used @ rest" "\<forall>ev \<in> set used. good ev"
      "sent h' = sent h1 @ concat (map sends used)"
      "received h' = received h1 @ concat (map takes used)"
      "added h' = added h1 @ concat (map adds used)"
      "done_sending_ice fl' \<or> (\<exists>ev \<in> set used. local_end ev)"
      "done_receiving_ice fl' \<or> (\<exists>ev \<in> set used. remote_end ev)"
      by blast
    with body_effects [OF step] body_flags [OF step [unfolded Inr]] show ?thesis
      by - (rule exI [of _ "ev # used"], rule exI [of _ rest], auto)
  qed
qed simp

text \<open>Progress: a body that does not fail breaks exactly when both ends have gone by.\<close>

lemma loop_progress:
  assumes total: "\<And>ev fl h. good ev \<Longrightarrow> \<exists>r. fst (body ev fl h) = Ok r"
    and "\<forall>ev \<in> set evs. good ev" and "\<not> (done_sending_ice fl \<and> done_receiving_ice fl)"
  shows "fst (trickle_loop body evs fl h) =
    (if (done_sending_ice fl \<or> (\<exists>ev \<in> set evs. local_end ev))
        \<and> (done_receiving_ice fl \<or> (\<exists>ev \<in> set evs. remote_end ev)) then Ok () else Blocked)"
  using assms(2,3)
proof (induction evs arbitrary: fl h)
  case (Cons ev evs)
  from Cons.prems total [of ev fl h] obtain r h1 where step: "body ev fl h = (Ok r, h1)"
    by (cases "body ev fl h") auto
  show ?case
  proof (cases r)
    case (Inl u)
    with step body_break [OF step [unfolded Inl]] show ?thesis by auto
  next
    case (Inr fl')
    note s = step [unfolded Inr]
    from Cons.IH [OF _ body_goes_on [OF s Cons.prems(2)]] Cons.prems(1)
    show ?thesis by (simp add: s body_flags [OF s])
  qed
qed auto

end

end
