(* ===== verification/Upgrade_Client.thy ===== *)
theory Upgrade_Client
  imports Trickle
begin

text \<open>
  The client side of the upgrade, \<open>upgrade2webrtc/src/client.rs\<close>. \<open>upgrade\<close> runs against an
  environment (the \<open>webrtc\<close> crate and the sends of the transport), the results of the
  \<open>recv_obj::<RTCMessage>\<close> calls that wait for the answer, and the sequence of events that its
  \<open>select!\<close> loop takes: a candidate of the local peer, or a result of
  \<open>recv_obj::<Option<RTCMessage>>\<close>. The order of the events is the choice \<open>select!\<close> makes.
\<close>

section \<open>Errors\<close>

datatype ('de, 'werr) ClientError =
    Client_WebRTCError 'werr
  | Client_IOError io_error
  | Client_DeserializeError 'de
  | UnexpectedMessage

text \<open>\<open>From<RecvError<DE>> for ClientError<DE>\<close>.\<close>

fun client_error_from_recv :: "'de RecvError \<Rightarrow> ('de, 'werr) ClientError" where
  "client_error_from_recv (DeserializeError e) = Client_DeserializeError e"
| "client_error_from_recv (IOError e) = Client_IOError e"

fun client_error_display ::
  "('werr \<Rightarrow> string) \<Rightarrow> (io_error \<Rightarrow> string) \<Rightarrow> ('de \<Rightarrow> string) \<Rightarrow> ('de, 'werr) ClientError \<Rightarrow> string"
  where
  "client_error_display sw si sd (Client_WebRTCError e) = sw e"
| "client_error_display sw si sd (Client_IOError e) = si e"
| "client_error_display sw si sd (Client_DeserializeError e) = sd e"
| "client_error_display sw si sd UnexpectedMessage = ''Unexpected WebRTC SDP type''"

section \<open>Creating the channels, waiting for the answer\<close>

fun create_channels ::
  "('sdp, 'cand, 'init, 'chan, 'werr, 'err) webrtc_env \<Rightarrow> (string \<times> RTCDataChannelInit) list
    \<Rightarrow> (string \<times> 'chan) list \<Rightarrow> ('sdp, 'cand, 'init, 'err) history
    \<Rightarrow> (('de, 'werr) ClientError, (string \<times> 'chan) list) res \<times> ('sdp, 'cand, 'init, 'err) history"
  where
  "create_channels env [] channels h = (Ok channels, h)"
| "create_channels env ((label, option) # configs) channels h =
     and_then (perform (CreateDataChannel label option) Client_WebRTCError
       (create_data_channel env label option) h) (\<lambda>ch h.
     create_channels env configs (channels @ [(label, ch)]) h)"

text \<open>The loop that collects candidates until the answer arrives.\<close>

fun await_answer ::
  "('de RecvError + ('sdp, 'init) RTCMessage) list \<Rightarrow> 'init list
    \<Rightarrow> ('sdp, 'cand, 'init, 'err) history
    \<Rightarrow> (('de, 'werr) ClientError, 'sdp \<times> 'init list) res \<times> ('sdp, 'cand, 'init, 'err) history"
  where
  "await_answer [] ices h = (Blocked, h)"
| "await_answer (Inl e # rs) ices h = (Err (client_error_from_recv e), h)"
| "await_answer (Inr (SDPAnswer x) # rs) ices h =
     (Ok (x, ices), h @ [RecvObj (WMsg (SDPAnswer x))])"
| "await_answer (Inr (ICE x) # rs) ices h =
     await_answer rs (ices @ [x]) (h @ [RecvObj (WMsg (ICE x))])"

fun add_candidates ::
  "('sdp, 'cand, 'init, 'chan, 'werr, 'err) webrtc_env \<Rightarrow> 'init list
    \<Rightarrow> ('sdp, 'cand, 'init, 'err) history
    \<Rightarrow> (('de, 'werr) ClientError, unit) res \<times> ('sdp, 'cand, 'init, 'err) history" where
  "add_candidates env [] h = (Ok (), h)"
| "add_candidates env (ice # ices) h =
     and_then (perform (AddIceCandidate ice) Client_WebRTCError (add_ice_candidate env ice) h) (\<lambda>_ h.
     add_candidates env ices h)"

section \<open>The trickle loop\<close>

text \<open>
  \<open>IceReady c\<close>: \<open>ice_receiver.recv()\<close> returned \<open>Some(c)\<close>, with \<open>c = None\<close> at the end of
  gathering; \<open>IceClosed\<close>: it returned \<open>None\<close>, whose \<open>unwrap\<close> panics; \<open>MsgReady r\<close>:
  \<open>recv_obj\<close> returned \<open>r\<close>.
\<close>

datatype ('sdp, 'cand, 'init, 'de) client_event =
    IceReady "'cand option"
  | IceClosed
  | MsgReady "'de RecvError + ('sdp, 'init) RTCMessage option"

fun client_ice_step ::
  "('sdp, 'cand, 'init, 'chan, 'werr, 'err) webrtc_env
    \<Rightarrow> ('sdp, 'cand, 'init, 'de) client_event \<Rightarrow> ice_flags \<Rightarrow> ('sdp, 'cand, 'init, 'err) history
    \<Rightarrow> (('de, 'werr) ClientError, unit + ice_flags) res \<times> ('sdp, 'cand, 'init, 'err) history" where
  "client_ice_step env IceClosed fl h = (Panicked, h)"
| "client_ice_step env (IceReady ice_to_send) fl h =
     and_then (perform (SendObj (WOptCand ice_to_send)) Client_IOError
       (transport_send env (WOptCand ice_to_send)) h) (\<lambda>_ h.
     if ice_to_send = None
     then (if done_receiving_ice fl then (Ok (Inl ()), h)
           else (Ok (Inr (fl\<lparr>done_sending_ice := True\<rparr>)), h))
     else (Ok (Inr fl), h))"
| "client_ice_step env (MsgReady (Inl e)) fl h = (Err (client_error_from_recv e), h)"
| "client_ice_step env (MsgReady (Inr (Some (SDPAnswer x)))) fl h =
     (Err UnexpectedMessage, h @ [RecvObj (WOptMsg (Some (SDPAnswer x)))])"
| "client_ice_step env (MsgReady (Inr None)) fl h =
     (if done_sending_ice fl then (Ok (Inl ()), h @ [RecvObj (WOptMsg None)])
      else (Ok (Inr (fl\<lparr>done_receiving_ice := True\<rparr>)), h @ [RecvObj (WOptMsg None)]))"
| "client_ice_step env (MsgReady (Inr (Some (ICE received_ice)))) fl h =
     and_then (perform (AddIceCandidate received_ice) Client_WebRTCError
       (add_ice_candidate env received_ice) (h @ [RecvObj (WOptMsg (Some (ICE received_ice)))]))
     (\<lambda>_ h. (Ok (Inr fl), h))"

definition client_ice_loop ::
  "('sdp, 'cand, 'init, 'chan, 'werr, 'err) webrtc_env
    \<Rightarrow> ('sdp, 'cand, 'init, 'de) client_event list \<Rightarrow> ice_flags
    \<Rightarrow> ('sdp, 'cand, 'init, 'err) history
    \<Rightarrow> (('de, 'werr) ClientError, unit) res \<times> ('sdp, 'cand, 'init, 'err) history" where
  "client_ice_loop env evs fl h = trickle_loop (client_ice_step env) evs fl h"

section \<open>The upgrade\<close>

text \<open>The exchange of the descriptions: from the new peer to the candidates that came early.\<close>

definition negotiate ::
  "('sdp, 'cand, 'init, 'chan, 'werr, 'err) webrtc_env \<Rightarrow> (string \<times> RTCDataChannelInit) list
    \<Rightarrow> ('de RecvError + ('sdp, 'init) RTCMessage) list \<Rightarrow> ('sdp, 'cand, 'init, 'err) history
    \<Rightarrow> (('de, 'werr) ClientError, (string \<times> 'chan) list) res \<times> ('sdp, 'cand, 'init, 'err) history"
  where
  "negotiate env channel_configs msgs h =
     and_then (perform NewPeer Client_WebRTCError (new_peer_connection env) h) (\<lambda>_ h.
     and_then (create_channels env channel_configs [] h) (\<lambda>channels h.
     and_then (perform CreateOffer Client_WebRTCError (create_offer env) h) (\<lambda>offer h.
     and_then (perform (SendObj (WOffer offer)) Client_IOError (transport_send env (WOffer offer)) h)
     (\<lambda>_ h.
     and_then (perform (SetLocalDescription offer) Client_WebRTCError
       (set_local_description env offer) h) (\<lambda>_ h.
     and_then (await_answer msgs [] h) (\<lambda>(answer, ices) h.
     and_then (perform (SetRemoteDescription answer) Client_WebRTCError
       (set_remote_description env answer) h) (\<lambda>_ h.
     and_then (add_candidates env ices h) (\<lambda>_ h.
     (Ok channels, h)))))))))"

text \<open>The whole of \<open>upgrade\<close>: the exchange, then the handler for candidates, then the loop.\<close>

definition upgrade ::
  "('sdp, 'cand, 'init, 'chan, 'werr, 'err) webrtc_env \<Rightarrow> (string \<times> RTCDataChannelInit) list
    \<Rightarrow> ('de RecvError + ('sdp, 'init) RTCMessage) list
    \<Rightarrow> ('sdp, 'cand, 'init, 'de) client_event list \<Rightarrow> ('sdp, 'cand, 'init, 'err) history
    \<Rightarrow> (('de, 'werr) ClientError, (string \<times> 'chan) list) res \<times> ('sdp, 'cand, 'init, 'err) history"
  where
  "upgrade env channel_configs msgs evs h =
     and_then (negotiate env channel_configs msgs h) (\<lambda>channels h.
     and_then (client_ice_loop env evs no_flags (h @ [RegisterOnIceCandidate])) (\<lambda>_ h.
     (Ok channels, h)))"

section \<open>Projections of the events\<close>

text \<open>The local candidates and the messages that a sequence of events delivers.\<close>

fun locals :: "('sdp, 'cand, 'init, 'de) client_event list \<Rightarrow> 'cand option list" where
  "locals [] = []"
| "locals (IceReady c # evs) = c # locals evs"
| "locals (IceClosed # evs) = locals evs"
| "locals (MsgReady r # evs) = locals evs"

fun remotes :: "('sdp, 'cand, 'init, 'de) client_event list \<Rightarrow> ('sdp, 'init) RTCMessage option list"
  where
  "remotes [] = []"
| "remotes (MsgReady (Inr m) # evs) = m # remotes evs"
| "remotes (MsgReady (Inl e) # evs) = remotes evs"
| "remotes (IceClosed # evs) = remotes evs"
| "remotes (IceReady c # evs) = remotes evs"

fun ice_of :: "('sdp, 'init) RTCMessage option \<Rightarrow> 'init list" where
  "ice_of (Some (ICE x)) = [x]"
| "ice_of _ = []"

text \<open>An event that a correct peer and an open channel can produce.\<close>

fun clean :: "('sdp, 'cand, 'init, 'de) client_event \<Rightarrow> bool" where
  "clean (IceReady c) = True"
| "clean (MsgReady (Inr None)) = True"
| "clean (MsgReady (Inr (Some (ICE x)))) = True"
| "clean _ = False"

lemma clean_cases [consumes 1, case_names Local End Remote]:
  assumes "clean ev"
  obtains c where "ev = IceReady c" | "ev = MsgReady (Inr None)" | x where "ev = MsgReady (Inr (Some (ICE x)))"
  using assms by (cases ev rule: clean.cases) auto

section \<open>The loop: lemmas\<close>

lemma locals_append: "locals (xs @ ys) = locals xs @ locals ys"
  by (induction xs rule: locals.induct) auto

text \<open>Effects of a sequence of events, event by event.\<close>

lemma client_events_conv:
  "concat (map (\<lambda>ev. map WOptCand (locals [ev])) evs) = map WOptCand (locals evs)"
  "concat (map (\<lambda>ev. map WOptMsg (remotes [ev])) evs) = map WOptMsg (remotes evs)"
  "concat (map (\<lambda>ev. concat (map ice_of (remotes [ev]))) evs) = concat (map ice_of (remotes evs))"
  "(\<exists>ev \<in> set evs. None \<in> set (locals [ev])) \<longleftrightarrow> None \<in> set (locals evs)"
  "(\<exists>ev \<in> set evs. None \<in> set (remotes [ev])) \<longleftrightarrow> None \<in> set (remotes evs)"
  by (induction evs rule: remotes.induct; auto)+

interpretation client: trickle "client_ice_step env" clean "\<lambda>ev. None \<in> set (locals [ev])"
  "\<lambda>ev. None \<in> set (remotes [ev])" "\<lambda>ev. map WOptCand (locals [ev])"
  "\<lambda>ev. map WOptMsg (remotes [ev])" "\<lambda>ev. concat (map ice_of (remotes [ev]))"
  for env :: "('sdp, 'cand, 'init, 'chan, 'werr, 'err) webrtc_env"
proof unfold_locales
  fix ev :: "('sdp, 'cand, 'init, 'de) client_event" and fl r and h h' :: "('sdp, 'cand, 'init, 'err) history"
  assume "client_ice_step env ev fl h = (Ok r, h')"
  then show "clean ev \<and> sent h' = sent h @ map WOptCand (locals [ev])
      \<and> received h' = received h @ map WOptMsg (remotes [ev])
      \<and> added h' = added h @ concat (map ice_of (remotes [ev]))"
    by (cases ev rule: clean.cases) (auto split: if_splits)
next
  fix ev :: "('sdp, 'cand, 'init, 'de) client_event" and fl fl' and h h' :: "('sdp, 'cand, 'init, 'err) history"
  assume step: "client_ice_step env ev fl h = (Ok (Inr fl'), h')"
  then show "(done_sending_ice fl' \<longleftrightarrow> done_sending_ice fl \<or> None \<in> set (locals [ev]))
      \<and> (done_receiving_ice fl' \<longleftrightarrow> done_receiving_ice fl \<or> None \<in> set (remotes [ev]))"
    by (cases ev rule: clean.cases) (auto split: if_splits)
  assume "\<not> (done_sending_ice fl \<and> done_receiving_ice fl)"
  with step show "\<not> (done_sending_ice fl' \<and> done_receiving_ice fl')"
    by (cases ev rule: clean.cases) (auto split: if_splits)
next
  fix ev :: "('sdp, 'cand, 'init, 'de) client_event" and fl u and h h' :: "('sdp, 'cand, 'init, 'err) history"
  assume "client_ice_step env ev fl h = (Ok (Inl u), h')"
  then show "(done_sending_ice fl \<or> None \<in> set (locals [ev]))
      \<and> (done_receiving_ice fl \<or> None \<in> set (remotes [ev]))"
    by (cases ev rule: clean.cases) (auto split: if_splits)
qed

lemma client_ice_loop_Ok:
  assumes "client_ice_loop env evs fl h = (Ok u, h')"
  shows "\<exists>used rest. evs = used @ rest \<and> (\<forall>ev \<in> set used. clean ev)
    \<and> sent h' = sent h @ map WOptCand (locals used)
    \<and> received h' = received h @ map WOptMsg (remotes used)
    \<and> added h' = added h @ concat (map ice_of (remotes used))
    \<and> (done_sending_ice fl \<or> None \<in> set (locals used))
    \<and> (done_receiving_ice fl \<or> None \<in> set (remotes used))"
  using client.loop_effects [OF assms [unfolded client_ice_loop_def]]
  by (simp only: client_events_conv)

lemma client_ice_loop_progress:
  assumes "env_succeeds env" and "\<forall>ev \<in> set evs. clean ev"
    and "\<not> (done_sending_ice fl \<and> done_receiving_ice fl)"
  shows "fst (client_ice_loop env evs fl h) =
    (if (done_sending_ice fl \<or> None \<in> set (locals evs))
        \<and> (done_receiving_ice fl \<or> None \<in> set (remotes evs)) then Ok () else Blocked)"
proof -
  have "\<exists>r. fst (client_ice_step env ev fl h) = Ok r" if "clean ev" for ev fl h
    using that by (cases ev rule: clean_cases) (auto simp: perform_def env_succeedsD [OF assms(1)])
  from client.loop_progress [OF this assms(2,3), of h] show ?thesis
    by (simp only: client_events_conv client_ice_loop_def)
qed

lemma create_channels_Ok:
  assumes "create_channels env cfgs chs h = (Ok chs' :: (('de, 'werr) ClientError, _) res, h')"
  shows "map fst chs' = map fst chs @ map fst cfgs \<and> sent h' = sent h \<and> received h' = received h
    \<and> added h' = added h"
  using assms
proof (induction cfgs arbitrary: chs h)
  case (Cons a cfgs)
  obtain label option where a: "a = (label, option)" by (cases a)
  with Cons.prems obtain ch where
    "create_channels env cfgs (chs @ [(label, ch)]) (h @ [CreateDataChannel label option])
       = (Ok chs' :: (('de, 'werr) ClientError, _) res, h')"
    by auto
  from Cons.IH [OF this] a show ?case by simp
qed simp

lemma await_answer_Ok:
  assumes "await_answer msgs ices h = (Ok (answer, ices'), h')"
  shows "\<exists>early rest. msgs = map (Inr \<circ> ICE) early @ Inr (SDPAnswer answer) # rest
    \<and> ices' = ices @ early \<and> sent h' = sent h \<and> added h' = added h
    \<and> received h' = received h @ map (WMsg \<circ> ICE) early @ [WMsg (SDPAnswer answer)]"
  using assms
proof (induction msgs ices h rule: await_answer.induct)
  case (4 x rs ices h)
  then obtain early rest where
    "rs = map (Inr \<circ> ICE) early @ Inr (SDPAnswer answer) # rest" "ices' = (ices @ [x]) @ early"
    "sent h' = sent h" "added h' = added h"
    "received h' = (received h @ [WMsg (ICE x)]) @ map (WMsg \<circ> ICE) early @ [WMsg (SDPAnswer answer)]"
    by auto
  then show ?case by (intro exI [of _ "x # early"] exI [of _ rest]) simp
qed auto

lemma add_candidates_Ok:
  assumes "add_candidates env ices h = (Ok u, h')"
  shows "sent h' = sent h \<and> received h' = received h \<and> added h' = added h @ ices"
  using assms by (induction ices arbitrary: h) auto

lemma negotiate_Ok:
  assumes "negotiate env cfgs msgs h = (Ok channels :: (('de, 'werr) ClientError, _) res, h')"
  shows "\<exists>offer answer early rest. map fst channels = map fst cfgs
    \<and> msgs = map (Inr \<circ> ICE) early @ Inr (SDPAnswer answer) # rest
    \<and> sent h' = sent h @ [WOffer offer]
    \<and> received h' = received h @ map (WMsg \<circ> ICE) early @ [WMsg (SDPAnswer answer)]
    \<and> added h' = added h @ early"
proof -
  from assms obtain h1 offer h2 answer ices h3 where
    c: "create_channels env cfgs [] (h @ [NewPeer]) = (Ok channels :: (('de, 'werr) ClientError, _) res, h1)"
    and h2: "h2 = h1 @ [CreateOffer, SendObj (WOffer offer), SetLocalDescription offer]"
    and a: "await_answer msgs [] h2 = (Ok (answer, ices) :: (('de, 'werr) ClientError, _) res, h3)"
    and i: "add_candidates env ices (h3 @ [SetRemoteDescription answer])
      = (Ok () :: (('de, 'werr) ClientError, _) res, h')"
    by (auto simp: negotiate_def)
  from await_answer_Ok [OF a] obtain early rest where
    "msgs = map (Inr \<circ> ICE) early @ Inr (SDPAnswer answer) # rest" "ices = early"
    "sent h3 = sent h2" "added h3 = added h2"
    "received h3 = received h2 @ map (WMsg \<circ> ICE) early @ [WMsg (SDPAnswer answer)]"
    by auto
  with create_channels_Ok [OF c] add_candidates_Ok [OF i] h2 show ?thesis by simp
qed

lemma upgrade_OkE:
  assumes "upgrade env cfgs msgs evs h = (Ok channels :: (('de, 'werr) ClientError, _) res, h')"
  obtains h1 where "negotiate env cfgs msgs h = (Ok channels :: (('de, 'werr) ClientError, _) res, h1)"
    "client_ice_loop env evs no_flags (h1 @ [RegisterOnIceCandidate])
      = (Ok () :: (('de, 'werr) ClientError, _) res, h')"
  using assms by (auto simp: upgrade_def)

lemma upgrade_labels:
  assumes "upgrade env cfgs msgs evs h = (Ok channels :: (('de, 'werr) ClientError, _) res, h')"
  shows "map fst channels = map fst cfgs"
  using assms by (elim upgrade_OkE) (auto dest: negotiate_Ok)

text \<open>
  Actions that the parts of the upgrade never perform: none of them closes the peer, and only \<open>upgrade\<close>
  itself, after the exchange of the descriptions, registers the handler for candidates.
\<close>

lemmas outcome_splits = res.splits prod.splits sum.splits if_splits

abbreviation never_performed :: "('sdp, 'cand, 'init, 'err) rtc_action \<Rightarrow> bool" where
  "never_performed a \<equiv> a = ClosePeer \<or> a = RegisterOnIceCandidate"

lemma create_channels_never:
  "never_performed a \<Longrightarrow> count_list (snd (create_channels env cfgs chs h)) a = count_list h a"
proof (induction env cfgs chs h rule: create_channels.induct)
  case (2 env label option cfgs chs h)
  then show ?case
    by (cases "create_data_channel env label option h") (auto simp: perform_def)
qed simp

lemma await_answer_never:
  "never_performed a \<Longrightarrow> count_list (snd (await_answer msgs ices h)) a = count_list h a"
  by (induction msgs ices h rule: await_answer.induct) auto

lemma add_candidates_never:
  "never_performed a \<Longrightarrow> count_list (snd (add_candidates env ices h)) a = count_list h a"
proof (induction env ices h rule: add_candidates.induct)
  case (2 env ice ices h)
  then show ?case by (cases "add_ice_candidate env ice h") (auto simp: perform_def)
qed simp

lemma client_ice_step_never:
  "never_performed a \<Longrightarrow> count_list (snd (client_ice_step env ev fl h)) a = count_list h a"
  by (cases "(env, ev, fl, h)" rule: client_ice_step.cases)
    (auto simp: and_then_def perform_def split: outcome_splits)

lemma client_ice_loop_never:
  "never_performed a \<Longrightarrow> count_list (snd (client_ice_loop env evs fl h)) a = count_list h a"
  unfolding client_ice_loop_def
  by (rule trickle_loop_history [where P = "\<lambda>h'. count_list h' a = count_list h a"])
    (simp_all add: client_ice_step_never)

lemma negotiate_never:
  assumes "never_performed a"
  shows "count_list (snd (negotiate env cfgs msgs h)) a = count_list h a"
  unfolding negotiate_def
  by (intro and_then_history [where P = "\<lambda>h'. count_list h' a = count_list h a"])
    (use assms in \<open>auto simp: perform_def create_channels_never await_answer_never add_candidates_never
      intro!: and_then_history [where P = "\<lambda>h'. count_list h' a = count_list h a"]\<close>)

lemma client_ice_loop_extends: "\<exists>h2. snd (client_ice_loop env evs fl h) = h @ h2"
  unfolding client_ice_loop_def
proof (rule trickle_loop_history [where P = "\<lambda>h'. \<exists>h2. h' = h @ h2"])
  fix ev fl h' assume "\<exists>h2. h' = h @ h2"
  then show "\<exists>h2. snd (client_ice_step env ev fl h') = h @ h2"
    by (cases "(env, ev, fl, h')" rule: client_ice_step.cases)
      (auto simp: and_then_def perform_def split: outcome_splits)
qed simp

text \<open>The \<open>unwrap\<close> of \<open>recv\<close> is the only place where the upgrade itself can panic.\<close>

lemma perform_Panicked_iff: "fst (perform act f call h) = Panicked \<longleftrightarrow> call h = Panicked"
  by (simp add: perform_def map_res_Panicked_iff)

lemmas panic_iffs = and_then_Panicked_iff perform_Panicked_iff

lemma create_channels_no_panic: "rtc_no_panic env \<Longrightarrow> fst (create_channels env cfgs chs h) \<noteq> Panicked"
  by (induction env cfgs chs h rule: create_channels.induct)
    (auto simp: panic_iffs rtc_no_panicD)

lemma await_answer_no_panic: "fst (await_answer msgs ices h) \<noteq> Panicked"
  by (induction msgs ices h rule: await_answer.induct) auto

lemma add_candidates_no_panic: "rtc_no_panic env \<Longrightarrow> fst (add_candidates env ices h) \<noteq> Panicked"
  by (induction env ices h rule: add_candidates.induct)
    (auto simp: panic_iffs rtc_no_panicD)

lemma negotiate_no_panic:
  assumes "rtc_no_panic env" and "\<And>x h. transport_send env x h \<noteq> Panicked"
  shows "fst (negotiate env cfgs msgs h) \<noteq> Panicked"
  unfolding negotiate_def
  by (auto simp: panic_iffs rtc_no_panicD [OF assms(1)] assms create_channels_no_panic
      await_answer_no_panic add_candidates_no_panic)

lemma client_ice_loop_no_panic:
  assumes "rtc_no_panic env" and "\<And>x h. transport_send env x h \<noteq> Panicked" and "IceClosed \<notin> set evs"
  shows "fst (client_ice_loop env evs fl h) \<noteq> Panicked"
proof -
  have step: "fst (client_ice_step env ev fl h) \<noteq> Panicked" if "ev \<noteq> IceClosed" for ev fl h
    using that by (cases "(env, ev, fl, h)" rule: client_ice_step.cases)
      (auto simp: panic_iffs rtc_no_panicD [OF assms(1)] assms(2) split: if_splits)
  show ?thesis using assms(3) unfolding client_ice_loop_def
    by (induction evs arbitrary: fl h) (auto simp: panic_iffs step split: sum.splits)
qed

lemma upgrade_no_panic:
  assumes "rtc_no_panic env" and "framed_sends ser env" and "sendable ser" and "IceClosed \<notin> set evs"
  shows "fst (upgrade env cfgs msgs evs h) \<noteq> Panicked"
  unfolding upgrade_def using framed_sends_no_panic [OF assms(2,3)] assms
  by (intro and_then_no_panic) (simp_all add: negotiate_no_panic client_ice_loop_no_panic)

lemma upgrade_no_close: "ClosePeer \<notin> set (snd (upgrade env cfgs msgs evs []))"
proof -
  have "count_list (snd (upgrade env cfgs msgs evs [])) ClosePeer = 0"
    unfolding upgrade_def
    by (intro and_then_history [where P = "\<lambda>h. count_list h ClosePeer = 0"])
      (simp_all add: negotiate_never client_ice_loop_never)
  then show ?thesis by (simp add: count_list_0_iff)
qed

lemma create_channels_total:
  "env_succeeds env \<Longrightarrow> \<exists>chs'. fst (create_channels env cfgs chs h) = Ok chs'"
proof (induction env cfgs chs h rule: create_channels.induct)
  case (2 env label option cfgs chs h)
  from env_succeedsD(2) [OF "2.prems"] obtain ch where "create_data_channel env label option h = Ok ch"
    by blast
  with "2.IH" [OF "2.prems"] show ?case by (simp add: perform_def)
qed simp

lemma await_answer_answered:
  "fst (await_answer (map (Inr \<circ> ICE) early @ Inr (SDPAnswer answer) # rest) ices h)
    = Ok (answer, ices @ early)"
  by (induction early arbitrary: ices h) auto

lemma add_candidates_total: "env_succeeds env \<Longrightarrow> fst (add_candidates env ices h) = Ok ()"
  by (induction ices arbitrary: h) (auto simp: perform_def env_succeeds_def)

lemma negotiate_total:
  assumes "env_succeeds env"
  shows "\<exists>channels. fst (negotiate env cfgs
    (map (Inr \<circ> ICE) early @ Inr (SDPAnswer answer) # rest) h)
    = (Ok channels :: (('de, 'werr) ClientError, _) res)"
proof -
  from create_channels_total [OF assms] obtain chs where
    c: "fst (create_channels env cfgs [] (h @ [NewPeer]))
      = (Ok chs :: (('de, 'werr) ClientError, _) res)" by blast
  obtain offer where "create_offer env
      (snd (create_channels env cfgs [] (h @ [NewPeer]) :: (('de, 'werr) ClientError, _) res \<times> _)) = Ok offer"
    using env_succeedsD(3) [OF assms] by blast
  then show ?thesis
    by (simp add: negotiate_def perform_def env_succeedsD [OF assms] and_then_done [OF c] and_then_done [OF await_answer_answered]
        and_then_done [OF add_candidates_total [OF assms]])
qed

section \<open>Properties of the client\<close>

text \<open>
  C4: What a successful upgrade has done. It sent one offer and after it nothing but the local
  candidates, in the order they were gathered, their end marker among them; it received an answer,
  before it only early candidates and after it only candidates and the peer's end marker; it added
  every candidate it received, early ones first, once and in order; and it returns one data channel
  per requested label, in the requested order.
\<close>

theorem upgrade_success:
  assumes "upgrade env cfgs msgs evs h = (Ok channels :: (('de, 'werr) ClientError, _) res, h')"
  shows "\<exists>offer answer early used rest. evs = used @ rest \<and> map fst channels = map fst cfgs
    \<and> sent h' = sent h @ WOffer offer # map WOptCand (locals used)
    \<and> received h' = received h @ map (WMsg \<circ> ICE) early @ [WMsg (SDPAnswer answer)]
        @ map WOptMsg (remotes used)
    \<and> added h' = added h @ early @ concat (map ice_of (remotes used))
    \<and> None \<in> set (locals used) \<and> None \<in> set (remotes used)"
proof -
  from assms obtain h1 where n: "negotiate env cfgs msgs h = (Ok channels :: (('de, 'werr) ClientError, _) res, h1)"
    and l: "client_ice_loop env evs no_flags (h1 @ [RegisterOnIceCandidate])
      = (Ok () :: (('de, 'werr) ClientError, _) res, h')"
    by (rule upgrade_OkE)
  from negotiate_Ok [OF n] client_ice_loop_Ok [OF l] show ?thesis
    by (fastforce simp: no_flags_def)
qed

text \<open>A run of the client, with the events in an order in which the peer's end comes first.\<close>

definition demo_events :: "(nat, nat, nat, string) client_event list" where
  "demo_events = [IceReady (Some 7), MsgReady (Inr (Some (ICE 5))), MsgReady (Inr None),
     IceReady (Some 8), IceReady None, IceReady (Some 9)]"

lemma upgrade_demo:
  "upgrade ok_env [(''init'', TCP_DATA_CHANNEL)] [Inr (ICE 4), Inr (SDPAnswer 2)] demo_events []
   = (Ok [(''init'', 1)] :: ((string, unit) ClientError, _) res,
      [NewPeer, CreateDataChannel ''init'' TCP_DATA_CHANNEL, CreateOffer, SendObj (WOffer 1),
       SetLocalDescription 1, RecvObj (WMsg (ICE 4)), RecvObj (WMsg (SDPAnswer 2)),
       SetRemoteDescription 2, AddIceCandidate 4, RegisterOnIceCandidate,
       SendObj (WOptCand (Some 7)), RecvObj (WOptMsg (Some (ICE 5))), AddIceCandidate 5,
       RecvObj (WOptMsg None), SendObj (WOptCand (Some 8)), SendObj (WOptCand None)])"
  by (simp add: upgrade_def negotiate_def perform_def demo_events_def no_flags_def client_ice_loop_def)

theorem upgrade_success_witness:
  "\<exists>offer answer early used rest. demo_events = used @ rest
    \<and> ([WOffer 1, WOptCand (Some 7), WOptCand (Some 8), WOptCand None] :: (nat, nat, nat) wire_obj list)
        = WOffer offer # map WOptCand (locals used)
    \<and> ([WMsg (ICE 4), WMsg (SDPAnswer 2), WOptMsg (Some (ICE 5)), WOptMsg None]
          :: (nat, nat, nat) wire_obj list)
        = map (WMsg \<circ> ICE) early @ [WMsg (SDPAnswer answer)] @ map WOptMsg (remotes used)
    \<and> [4, 5] = early @ concat (map ice_of (remotes used))
    \<and> None \<in> set (locals used) \<and> None \<in> set (remotes used)"
  using upgrade_success [OF upgrade_demo] by simp

text \<open>
  C5: The upgrade terminates successfully. If the crate and the transport do not fail, the peer
  answers (possibly after some candidates) and then sends candidates and its end marker, and the
  local gathering ends, then the upgrade returns the channels, in whatever order \<open>select!\<close> takes
  the events.
\<close>

theorem upgrade_terminates:
  assumes "env_succeeds env"
    and "msgs = map (Inr \<circ> ICE) early @ Inr (SDPAnswer answer) # rest"
    and "\<forall>ev \<in> set evs. clean ev" and "None \<in> set (locals evs)" and "None \<in> set (remotes evs)"
  shows "\<exists>channels. fst (upgrade env cfgs msgs evs h) = Ok channels"
proof -
  from negotiate_total [OF assms(1)] obtain channels where
    n: "fst (negotiate env cfgs msgs h) = Ok channels" unfolding assms(2) by blast
  have "fst (client_ice_loop env evs no_flags h1) = Ok ()" for h1
    using client_ice_loop_progress [OF assms(1,3), of no_flags] assms(4,5)
    by (simp add: no_flags_def)
  with n have "fst (upgrade env cfgs msgs evs h) = Ok channels"
    by (simp add: upgrade_def and_then_done)
  then show ?thesis ..
qed

theorem upgrade_terminates_witness:
  "\<exists>channels. fst (upgrade ok_env [(''init'', TCP_DATA_CHANNEL)]
     (map (Inr \<circ> ICE) [4] @ Inr (SDPAnswer 2) # []) demo_events []) = Ok channels"
  by (rule upgrade_terminates [OF ok_env_succeeds refl]) (simp_all add: demo_events_def)

text \<open>
  The gathering of the local peer, as the documentation of the crate has it: \<open>set_local_description\<close> starts
  it, and a candidate (or the end marker, \<open>None\<close>) is passed to the handler if one is registered when it is
  gathered, and dropped otherwise. A gathering is a list of candidates, each with its time, the number of
  effects that the history had by then.
\<close>

definition heard :: "(nat \<times> 'cand option) list \<Rightarrow> ('sdp, 'cand, 'init, 'err) history \<Rightarrow> 'cand option list" where
  "heard gathered h = map snd (filter (\<lambda>(t, c). RegisterOnIceCandidate \<in> set (take t h)) gathered)"

text \<open>The gathering is over while the upgrade waits for the answer.\<close>

definition gathered_early :: "(nat \<times> 'cand option) list \<Rightarrow> ('sdp, 'cand, 'init, 'err) history \<Rightarrow> bool" where
  "gathered_early gathered h \<longleftrightarrow> (\<forall>(t, c) \<in> set gathered. (\<exists>d. SetLocalDescription d \<in> set (take t h))
     \<and> (\<forall>answer. RecvObj (WMsg (SDPAnswer answer)) \<notin> set (take t h)))"

lemma received_set: "RecvObj x \<in> set h \<longleftrightarrow> x \<in> set (received h)"
  by (induction h) (auto split: option.split elim: received_of.elims)

text \<open>The handler is registered after the answer has been received.\<close>

lemma registered_late:
  assumes "negotiate env cfgs msgs [] = (Ok channels :: (('de, 'werr) ClientError, _) res, h1)"
    and "RegisterOnIceCandidate \<in> set (take t (h1 @ h2))"
  shows "\<exists>answer. RecvObj (WMsg (SDPAnswer answer)) \<in> set (take t (h1 @ h2))"
proof -
  have "count_list h1 RegisterOnIceCandidate = 0"
    using negotiate_never [of RegisterOnIceCandidate env cfgs msgs "[]"] assms(1) by simp
  then have "RegisterOnIceCandidate \<notin> set h1" by (simp add: count_list_0_iff)
  with assms(2) have "0 < t - length h1" by (cases "t - length h1") (auto dest: in_set_takeD)
  then have "set h1 \<subseteq> set (take t (h1 @ h2))" by simp
  moreover from negotiate_Ok [OF assms(1)] obtain early answer where
    "received h1 = map (WMsg \<circ> ICE) early @ [WMsg (SDPAnswer answer)]" by auto
  then have "RecvObj (WMsg (SDPAnswer answer)) \<in> set h1" by (simp add: received_set)
  ultimately show ?thesis by blast
qed

text \<open>
  C33: The upgrade hangs if the local gathering is faster than the answer. Let the crate and the transport
  not fail, let the peer answer and then send candidates, an end marker or nothing, in any order with the
  local events, and let the local events be what the gathering passes to the handler. If the gathering is
  over when the answer arrives, then all its candidates are lost, because the handler is registered only
  after the answer has been handled, and the upgrade waits in its loop forever: after every sequence of
  events, however long, it is still pending.
\<close>

theorem upgrade_misses_early_gathering:
  assumes "env_succeeds env" and "msgs = map (Inr \<circ> ICE) early @ Inr (SDPAnswer answer) # rest"
    and "\<forall>ev \<in> set evs. clean ev"
    and up: "upgrade env cfgs msgs evs [] = (r :: (('de, 'werr) ClientError, _) res, h)"
    and "locals evs = heard gathered h" and "gathered_early gathered h"
  shows "r = Blocked \<and> RegisterOnIceCandidate \<in> set h"
proof -
  from negotiate_total [OF assms(1)] obtain channels h1 where
    n: "negotiate env cfgs msgs [] = (Ok channels :: (('de, 'werr) ClientError, _) res, h1)"
    unfolding assms(2) by (metis prod.collapse)
  let ?loop = "client_ice_loop env evs no_flags (h1 @ [RegisterOnIceCandidate]) :: (('de, 'werr) ClientError, unit) res \<times> _"
  have "h = snd ?loop" using up n by (cases ?loop; cases "fst ?loop") (auto simp: upgrade_def)
  with client_ice_loop_extends [of env evs no_flags "h1 @ [RegisterOnIceCandidate]"]
  obtain h2 where h2: "h = h1 @ RegisterOnIceCandidate # h2" by auto
  have "RegisterOnIceCandidate \<notin> set (take t h)" if "(t, c) \<in> set gathered" for t c
    using registered_late [OF n, of t "RegisterOnIceCandidate # h2"] assms(6) that
    unfolding h2 gathered_early_def by blast
  then have "locals evs = []" unfolding assms(5) heard_def by (auto simp: filter_empty_conv)
  then have "fst ?loop = Blocked"
    using client_ice_loop_progress [OF assms(1,3), of no_flags] by (simp add: no_flags_def)
  then have "r = Blocked" using up n by (cases ?loop) (simp add: upgrade_def)
  with h2 show ?thesis by simp
qed

theorem upgrade_misses_early_gathering_witness:
  "fst (upgrade (ok_env :: (nat, nat, nat, nat, unit, unit) webrtc_env) [(''init'', TCP_DATA_CHANNEL)]
      (map (Inr \<circ> ICE) [] @ Inr (SDPAnswer 2) # [])
      [MsgReady (Inr (Some (ICE 5))), MsgReady (Inr None)] [])
   = (Blocked :: ((string, unit) ClientError, _) res)"
proof -
  let ?h = "[NewPeer, CreateDataChannel ''init'' TCP_DATA_CHANNEL, CreateOffer, SendObj (WOffer 1),
       SetLocalDescription 1, RecvObj (WMsg (SDPAnswer 2)), SetRemoteDescription 2, RegisterOnIceCandidate,
       RecvObj (WOptMsg (Some (ICE 5))), AddIceCandidate 5, RecvObj (WOptMsg None)]
    :: (nat, nat, nat, unit) history"
  have "upgrade ok_env [(''init'', TCP_DATA_CHANNEL)] (map (Inr \<circ> ICE) [] @ Inr (SDPAnswer 2) # [])
      [MsgReady (Inr (Some (ICE 5))), MsgReady (Inr None)] [] = (Blocked :: ((string, unit) ClientError, _) res, ?h)"
    by (simp add: upgrade_def negotiate_def perform_def no_flags_def client_ice_loop_def)
  with upgrade_misses_early_gathering [OF ok_env_succeeds refl _ this, of "[(5, Some 7), (5, None)]"] show ?thesis
    by (simp add: heard_def gathered_early_def)
qed

text \<open>
  C40: The client never closes the peer connection it creates, on no path and with no outcome: an
  upgrade that fails after \<open>new_peer_connection\<close> has succeeded leaves the peer open (the server,
  in contrast, closes the peer on each of its error paths).
\<close>

theorem upgrade_never_closes_peer:
  "count_list (snd (upgrade env cfgs msgs evs h)) ClosePeer = count_list h ClosePeer"
  unfolding upgrade_def
  by (intro and_then_history [where P = "\<lambda>h'. count_list h' ClosePeer = count_list h ClosePeer"])
    (simp_all add: negotiate_never client_ice_loop_never)

end
