(* ===== verification/Upgrade_Server.thy ===== *)
theory Upgrade_Server
  imports Upgrade_Client
begin

text \<open>
  The server side of one connection, \<open>upgrade2webrtc/src/server.rs\<close>: the task that \<open>run\<close> spawns for
  every accepted transport. The task serves offers in a loop. Each round consists of the result of
  the \<open>recv_obj\<close> that waits for the offer and of the events its \<open>select!\<close> loop takes; the
  callbacks \<open>on_success\<close> and \<open>on_err\<close> and \<open>peer.close()\<close> are parameters.
\<close>

section \<open>Errors\<close>

datatype ('ae, 'de, 'werr) ServerError =
    Server_AcceptError 'ae
  | BadMessage 'de string
  | Server_IOError io_error
  | Server_WebRTCError 'werr

fun server_error_display ::
  "('ae \<Rightarrow> string) \<Rightarrow> ('de \<Rightarrow> string) \<Rightarrow> (io_error \<Rightarrow> string) \<Rightarrow> ('werr \<Rightarrow> string)
    \<Rightarrow> ('ae, 'de, 'werr) ServerError \<Rightarrow> string" where
  "server_error_display sa sd si sw (Server_AcceptError e) = sa e"
| "server_error_display sa sd si sw (BadMessage e client_id) =
     ''From: '' @ client_id @ [CHR 0x0A] @ sd e"
| "server_error_display sa sd si sw (Server_IOError e) = si e"
| "server_error_display sa sd si sw (Server_WebRTCError e) = sw e"

text \<open>The error that a failed \<open>recv_obj\<close> is reported as.\<close>

fun recv_failure :: "string \<Rightarrow> 'de RecvError \<Rightarrow> ('ae, 'de, 'werr) ServerError" where
  "recv_failure client_id (DeserializeError e) = BadMessage e client_id"
| "recv_failure client_id (IOError e) = Server_IOError e"

section \<open>The trickle loop of the server\<close>

datatype ('cand, 'de) server_event =
    SIceReady "'cand option"
  | SIceClosed
  | SCandReady "'de RecvError + 'cand option"

text \<open>\<open>ice_to_send.map(|x| x.to_json()).transpose()\<close>, then \<open>map(RTCMessage::ICE)\<close>.\<close>

definition ice_message ::
  "('sdp, 'cand, 'init, 'chan, 'werr, 'err) webrtc_env \<Rightarrow> 'cand option
    \<Rightarrow> 'werr + ('sdp, 'init) RTCMessage option" where
  "ice_message env c = (case c of
      None \<Rightarrow> Inr None
    | Some x \<Rightarrow> (case cand_to_json env x of Inl e \<Rightarrow> Inl e | Inr j \<Rightarrow> Inr (Some (ICE j))))"

text \<open>The histories of the server record the errors it reports.\<close>

type_synonym ('sdp, 'cand, 'init, 'ae, 'de, 'werr) server_history =
  "('sdp, 'cand, 'init, ('ae, 'de, 'werr) ServerError) history"

type_synonym ('sdp, 'cand, 'init, 'chan, 'ae, 'de, 'werr) server_env =
  "('sdp, 'cand, 'init, 'chan, 'werr, ('ae, 'de, 'werr) ServerError) webrtc_env"

fun server_ice_step ::
  "('sdp, 'cand, 'init, 'chan, 'ae, 'de, 'werr) server_env \<Rightarrow> string
    \<Rightarrow> ('cand, 'de) server_event \<Rightarrow> ice_flags \<Rightarrow> ('sdp, 'cand, 'init, 'ae, 'de, 'werr) server_history
    \<Rightarrow> (('ae, 'de, 'werr) ServerError, unit + ice_flags) res \<times> ('sdp, 'cand, 'init, 'ae, 'de, 'werr) server_history"
  where
  "server_ice_step env tid SIceClosed fl h = (Panicked, h)"
| "server_ice_step env tid (SIceReady c) fl h =
     (case ice_message env c of
        Inl e \<Rightarrow> (Err (Server_WebRTCError e), h)
      | Inr ice_to_send \<Rightarrow>
          and_then (perform (SendObj (WOptMsg ice_to_send)) Server_IOError
            (transport_send env (WOptMsg ice_to_send)) h) (\<lambda>_ h.
          if ice_to_send = None
          then (if done_receiving_ice fl then (Ok (Inl ()), h)
                else (Ok (Inr (fl\<lparr>done_sending_ice := True\<rparr>)), h))
          else (Ok (Inr fl), h)))"
| "server_ice_step env tid (SCandReady (Inl e)) fl h = (Err (recv_failure tid e), h)"
| "server_ice_step env tid (SCandReady (Inr None)) fl h =
     (if done_sending_ice fl then (Ok (Inl ()), h @ [RecvObj (WOptCand None)])
      else (Ok (Inr (fl\<lparr>done_receiving_ice := True\<rparr>)), h @ [RecvObj (WOptCand None)]))"
| "server_ice_step env tid (SCandReady (Inr (Some c))) fl h =
     (case cand_to_json env c of
        Inl e \<Rightarrow> (Err (Server_WebRTCError e), h @ [RecvObj (WOptCand (Some c))])
      | Inr received_ice \<Rightarrow>
          and_then (perform (AddIceCandidate received_ice) Server_WebRTCError
            (add_ice_candidate env received_ice) (h @ [RecvObj (WOptCand (Some c))]))
          (\<lambda>_ h. (Ok (Inr fl), h)))"

definition server_ice_loop ::
  "('sdp, 'cand, 'init, 'chan, 'ae, 'de, 'werr) server_env \<Rightarrow> string
    \<Rightarrow> ('cand, 'de) server_event list \<Rightarrow> ice_flags \<Rightarrow> ('sdp, 'cand, 'init, 'ae, 'de, 'werr) server_history
    \<Rightarrow> (('ae, 'de, 'werr) ServerError, unit) res \<times> ('sdp, 'cand, 'init, 'ae, 'de, 'werr) server_history" where
  "server_ice_loop env tid evs fl h = trickle_loop (server_ice_step env tid) evs fl h"

section \<open>Serving one offer\<close>

text \<open>
  From the registration of the handlers on the new peer to the end of the trickle loop. An \<open>Err\<close>
  is what \<open>webrtc_unwrap!\<close> and \<open>returning!\<close> hand to \<open>on_err\<close> after closing the peer.
\<close>

definition serve_offer ::
  "('sdp, 'cand, 'init, 'chan, 'ae, 'de, 'werr) server_env \<Rightarrow> string \<Rightarrow> 'sdp
    \<Rightarrow> ('cand, 'de) server_event list \<Rightarrow> ('sdp, 'cand, 'init, 'ae, 'de, 'werr) server_history
    \<Rightarrow> (('ae, 'de, 'werr) ServerError, unit) res \<times> ('sdp, 'cand, 'init, 'ae, 'de, 'werr) server_history" where
  "serve_offer env tid offer evs h =
     and_then (perform (SetRemoteDescription offer) Server_WebRTCError
       (set_remote_description env offer) (h @ [RegisterOnDataChannel, RegisterOnIceCandidate]))
     (\<lambda>_ h.
     and_then (perform CreateAnswer Server_WebRTCError (create_answer env) h) (\<lambda>answer h.
     and_then (perform (SendObj (WMsg (SDPAnswer answer))) Server_IOError
       (transport_send env (WMsg (SDPAnswer answer))) h) (\<lambda>_ h.
     and_then (perform (SetLocalDescription answer) Server_WebRTCError
       (set_local_description env answer) h) (\<lambda>_ h.
     server_ice_loop env tid evs no_flags h))))"

text \<open>
  The handler of incoming data channels: it waits until the channel is open (\<open>opened\<close> tells
  whether the wait succeeded), logs a failure, and passes the channel on in either case.
\<close>

definition on_data_channel :: "string \<Rightarrow> bool \<Rightarrow> 'chan \<Rightarrow> string list \<times> 'chan list" where
  "on_data_channel transport_id opened data_channel =
     ((if opened then [] else [''Failed to initialize data channel for ID: '' @ transport_id]), [data_channel])"

section \<open>The task of a connection\<close>

record ('sdp, 'cand, 'init, 'werr, 'err) server_hooks =
  on_success_hook :: "('sdp, 'cand, 'init, 'err) history \<Rightarrow> ('err, unit) res"
  on_err_hook :: "'err \<Rightarrow> ('sdp, 'cand, 'init, 'err) history \<Rightarrow> ('err, unit) res"
  peer_close :: "('sdp, 'cand, 'init, 'err) history \<Rightarrow> ('werr, unit) res"

text \<open>
  A callback is a future without a result: it returns, panics or stays pending. \<open>let _ =
  peer.close().await\<close> ignores an error.
\<close>

definition settle :: "('e, 'a) res \<Rightarrow> ('f, unit) res" where
  "settle r = (case r of Panicked \<Rightarrow> Panicked | Blocked \<Rightarrow> Blocked | _ \<Rightarrow> Ok ())"

definition report ::
  "('sdp, 'cand, 'init, 'werr, 'err) server_hooks \<Rightarrow> 'err \<Rightarrow> ('sdp, 'cand, 'init, 'err) history
    \<Rightarrow> ('err, unit) res \<times> ('sdp, 'cand, 'init, 'err) history" where
  "report hooks e h = (settle (on_err_hook hooks e h), h @ [OnErr e])"

definition close_and_report ::
  "('sdp, 'cand, 'init, 'werr, 'err) server_hooks \<Rightarrow> 'err \<Rightarrow> ('sdp, 'cand, 'init, 'err) history
    \<Rightarrow> ('err, unit) res \<times> ('sdp, 'cand, 'init, 'err) history" where
  "close_and_report hooks e h =
     and_then (settle (peer_close hooks h), h @ [ClosePeer]) (\<lambda>_ h. report hooks e h)"

type_synonym ('sdp, 'cand, 'de) round = "('de RecvError + 'sdp) \<times> ('cand, 'de) server_event list"

fun connection_task ::
  "('sdp, 'cand, 'init, 'chan, 'ae, 'de, 'werr) server_env
    \<Rightarrow> ('sdp, 'cand, 'init, 'werr, ('ae, 'de, 'werr) ServerError) server_hooks \<Rightarrow> string
    \<Rightarrow> ('sdp, 'cand, 'de) round list
    \<Rightarrow> ('sdp, 'cand, 'init, 'ae, 'de, 'werr) server_history
    \<Rightarrow> (('ae, 'de, 'werr) ServerError, unit) res
        \<times> ('sdp, 'cand, 'init, 'ae, 'de, 'werr) server_history" where
  "connection_task env hooks tid [] h = (Blocked, h)"
| "connection_task env hooks tid ((Inl e, evs) # rounds) h = report hooks (recv_failure tid e) h"
| "connection_task env hooks tid ((Inr offer, evs) # rounds) h =
     (case perform NewPeer Server_WebRTCError (new_peer_connection env)
             (h @ [RecvObj (WOffer offer)]) of
        (Err e, h) \<Rightarrow> report hooks e h
      | (Panicked, h) \<Rightarrow> (Panicked, h)
      | (Blocked, h) \<Rightarrow> (Blocked, h)
      | (Ok _, h) \<Rightarrow>
          (case serve_offer env tid offer evs h of
             (Err e, h) \<Rightarrow> close_and_report hooks e h
           | (Panicked, h) \<Rightarrow> (Panicked, h)
           | (Blocked, h) \<Rightarrow> (Blocked, h)
           | (Ok _, h) \<Rightarrow>
               and_then (settle (on_success_hook hooks h), h @ [OnSuccess tid]) (\<lambda>_ h.
               connection_task env hooks tid rounds h)))"

section \<open>Projections of the events\<close>

fun slocals :: "('cand, 'de) server_event list \<Rightarrow> 'cand option list" where
  "slocals [] = []"
| "slocals (SIceReady c # evs) = c # slocals evs"
| "slocals (SIceClosed # evs) = slocals evs"
| "slocals (SCandReady r # evs) = slocals evs"

fun sremotes :: "('cand, 'de) server_event list \<Rightarrow> 'cand option list" where
  "sremotes [] = []"
| "sremotes (SCandReady (Inr c) # evs) = c # sremotes evs"
| "sremotes (SCandReady (Inl e) # evs) = sremotes evs"
| "sremotes (SIceClosed # evs) = sremotes evs"
| "sremotes (SIceReady c # evs) = sremotes evs"

fun sclean :: "('cand, 'de) server_event \<Rightarrow> bool" where
  "sclean (SIceReady c) = True"
| "sclean (SCandReady (Inr c)) = True"
| "sclean _ = False"

text \<open>The candidates as the crate's \<open>to_json\<close> renders them.\<close>

definition jsons :: "('sdp, 'cand, 'init, 'chan, 'werr, 'err) webrtc_env \<Rightarrow> 'cand option list \<Rightarrow> 'init list"
  where
  "jsons env cs = concat (map (\<lambda>c. case c of None \<Rightarrow> []
     | Some x \<Rightarrow> (case cand_to_json env x of Inl _ \<Rightarrow> [] | Inr j \<Rightarrow> [j])) cs)"

definition json_messages ::
  "('sdp, 'cand, 'init, 'chan, 'werr, 'err) webrtc_env \<Rightarrow> 'cand option list
    \<Rightarrow> ('sdp, 'cand, 'init) wire_obj list" where
  "json_messages env cs = concat (map (\<lambda>c. case ice_message env c of Inl _ \<Rightarrow> [] | Inr m \<Rightarrow> [WOptMsg m]) cs)"

lemma jsons_simps [simp]:
  "jsons env [] = []" "jsons env (xs @ ys) = jsons env xs @ jsons env ys"
  "json_messages env [] = []"
  "json_messages env (xs @ ys) = json_messages env xs @ json_messages env ys"
  by (simp_all add: jsons_def json_messages_def)

lemma ice_message_None [simp]: "ice_message env None = Inr None"
  by (simp add: ice_message_def)

lemma ice_message_None_iff [simp]: "ice_message env c = Inr None \<longleftrightarrow> c = None"
  by (auto simp: ice_message_def split: option.splits sum.splits)

section \<open>The loop: lemmas\<close>

text \<open>Effects of a sequence of events, event by event.\<close>

lemma server_events_conv:
  "concat (map (\<lambda>ev. json_messages env (slocals [ev])) evs) = json_messages env (slocals evs)"
  "concat (map (\<lambda>ev. map WOptCand (sremotes [ev])) evs) = map WOptCand (sremotes evs)"
  "concat (map (\<lambda>ev. jsons env (sremotes [ev])) evs) = jsons env (sremotes evs)"
  "(\<exists>ev \<in> set evs. None \<in> set (slocals [ev])) \<longleftrightarrow> None \<in> set (slocals evs)"
  "(\<exists>ev \<in> set evs. None \<in> set (sremotes [ev])) \<longleftrightarrow> None \<in> set (sremotes evs)"
  by (induction evs rule: sremotes.induct; auto simp: jsons_def json_messages_def)+

interpretation server: trickle "server_ice_step env tid" sclean "\<lambda>ev. None \<in> set (slocals [ev])"
  "\<lambda>ev. None \<in> set (sremotes [ev])" "\<lambda>ev. json_messages env (slocals [ev])"
  "\<lambda>ev. map WOptCand (sremotes [ev])" "\<lambda>ev. jsons env (sremotes [ev])"
  for env :: "('sdp, 'cand, 'init, 'chan, 'ae, 'de, 'werr) server_env" and tid
proof unfold_locales
  fix ev :: "('cand, 'de) server_event" and fl r and h h' :: "('sdp, 'cand, 'init, 'ae, 'de, 'werr) server_history"
  assume "server_ice_step env tid ev fl h = (Ok r, h')"
  then show "sclean ev \<and> sent h' = sent h @ json_messages env (slocals [ev])
      \<and> received h' = received h @ map WOptCand (sremotes [ev])
      \<and> added h' = added h @ jsons env (sremotes [ev])"
    by (cases "(env, tid, ev, fl, h)" rule: server_ice_step.cases)
      (auto simp: jsons_def json_messages_def split: if_splits sum.splits)
next
  fix ev :: "('cand, 'de) server_event" and fl fl' and h h' :: "('sdp, 'cand, 'init, 'ae, 'de, 'werr) server_history"
  assume step: "server_ice_step env tid ev fl h = (Ok (Inr fl'), h')"
  then show "(done_sending_ice fl' \<longleftrightarrow> done_sending_ice fl \<or> None \<in> set (slocals [ev]))
      \<and> (done_receiving_ice fl' \<longleftrightarrow> done_receiving_ice fl \<or> None \<in> set (sremotes [ev]))"
    by (cases "(env, tid, ev, fl, h)" rule: server_ice_step.cases) (auto split: if_splits sum.splits)
  assume "\<not> (done_sending_ice fl \<and> done_receiving_ice fl)"
  with step show "\<not> (done_sending_ice fl' \<and> done_receiving_ice fl')"
    by (cases "(env, tid, ev, fl, h)" rule: server_ice_step.cases) (auto split: if_splits sum.splits)
next
  fix ev :: "('cand, 'de) server_event" and fl u and h h' :: "('sdp, 'cand, 'init, 'ae, 'de, 'werr) server_history"
  assume "server_ice_step env tid ev fl h = (Ok (Inl u), h')"
  then show "(done_sending_ice fl \<or> None \<in> set (slocals [ev]))
      \<and> (done_receiving_ice fl \<or> None \<in> set (sremotes [ev]))"
    by (cases "(env, tid, ev, fl, h)" rule: server_ice_step.cases) (auto split: if_splits sum.splits)
qed

lemmas server_ice_loop_Ok = server.loop_effects [folded server_ice_loop_def, unfolded server_events_conv]

lemma ice_message_total:
  assumes "env_succeeds env"
  shows "\<exists>m. ice_message env c = Inr m"
proof (cases c)
  case (Some x)
  moreover obtain j where "cand_to_json env x = Inr j" using env_succeedsD(8) [OF assms] by blast
  ultimately show ?thesis by (simp add: ice_message_def)
qed simp

lemma server_ice_loop_progress:
  assumes "env_succeeds env" and "\<forall>ev \<in> set evs. sclean ev"
    and "\<not> (done_sending_ice fl \<and> done_receiving_ice fl)"
  shows "fst (server_ice_loop env tid evs fl h) =
    (if (done_sending_ice fl \<or> None \<in> set (slocals evs))
        \<and> (done_receiving_ice fl \<or> None \<in> set (sremotes evs)) then Ok () else Blocked)"
proof -
  have "\<exists>r. fst (server_ice_step env tid ev fl h) = Ok r" if "sclean ev" for ev fl h
  proof (cases "(env, tid, ev, fl, h)" rule: server_ice_step.cases)
    case (2 env' tid' c fl' h')
    moreover obtain m where "ice_message env c = Inr m" using ice_message_total [OF assms(1)] by blast
    ultimately show ?thesis using env_succeedsD(9) [OF assms(1)] by (auto simp: perform_def)
  next
    case (5 env' tid' c fl' h')
    moreover obtain j where "cand_to_json env c = Inr j" using env_succeedsD(8) [OF assms(1)] by blast
    ultimately show ?thesis using env_succeedsD(7) [OF assms(1)] by (auto simp: perform_def)
  qed (use that in auto)
  from server.loop_progress [OF this assms(2,3), of h] show ?thesis
    by (simp only: server_events_conv server_ice_loop_def)
qed

section \<open>The life of a peer connection\<close>

text \<open>
  Every peer the task creates gets its data-channel handler first, so the registrations count the
  peers. A peer leaves the task when it is closed or handed to \<open>on_success\<close>.
\<close>

fun peer_weight :: "('sdp, 'cand, 'init, 'err) rtc_action \<Rightarrow> int" where
  "peer_weight RegisterOnDataChannel = 1"
| "peer_weight ClosePeer = - 1"
| "peer_weight (OnSuccess t) = - 1"
| "peer_weight _ = 0"

fun reported_of :: "('sdp, 'cand, 'init, 'err) rtc_action \<Rightarrow> 'err option" where
  "reported_of (OnErr e) = Some e"
| "reported_of _ = None"

definition open_peers :: "('sdp, 'cand, 'init, 'err) history \<Rightarrow> int" where
  "open_peers h = sum_list (map peer_weight h)"

definition reported :: "('sdp, 'cand, 'init, 'err) history \<Rightarrow> 'err list" where
  "reported h = List.map_filter reported_of h"

lemma lifecycle_simps [simp, history_simps]:
  "open_peers [] = 0" "open_peers (h @ h') = open_peers h + open_peers h'"
  "open_peers (a # h) = peer_weight a + open_peers h"
  "reported [] = []" "reported (h @ h') = reported h @ reported h'"
  "reported (a # h) = (case reported_of a of None \<Rightarrow> reported h | Some e \<Rightarrow> e # reported h)"
  by (simp_all add: open_peers_def reported_def List.map_filter_def split: option.splits)

definition same_peers :: "('sdp, 'cand, 'init, 'err) history \<Rightarrow> ('sdp, 'cand, 'init, 'err) history \<Rightarrow> bool"
  where
  "same_peers h h' \<longleftrightarrow> open_peers h' = open_peers h \<and> reported h' = reported h"

lemma server_ice_step_peers: "same_peers h0 h \<Longrightarrow> same_peers h0 (snd (server_ice_step env tid ev fl h))"
  by (cases "(env, tid, ev, fl, h)" rule: server_ice_step.cases)
    (auto simp: same_peers_def and_then_def perform_def split: res.splits sum.splits)

lemma serve_offer_peers: "same_peers (h @ [RegisterOnDataChannel]) (snd (serve_offer env tid offer evs h))"
proof -
  have loop: "same_peers h0 h1 \<Longrightarrow> same_peers h0 (snd (server_ice_loop env tid evs fl h1))" for h0 h1 fl
    unfolding server_ice_loop_def
    by (rule trickle_loop_history [where P = "same_peers h0"]) (auto intro: server_ice_step_peers)
  show ?thesis
    unfolding serve_offer_def
    by (intro and_then_history [where P = "same_peers (h @ [RegisterOnDataChannel])"])
      (auto simp: perform_def intro: loop, simp_all add: same_peers_def)
qed

lemma report_cases:
  "snd (report hooks e h) = h @ [OnErr e]" "fst (report hooks e h) \<noteq> Err e'"
  by (auto simp: report_def settle_def split: res.splits)

lemma close_and_report_Ok:
  assumes "close_and_report hooks e h = (Ok u, h')"
  shows "h' = h @ [ClosePeer, OnErr e]"
  using assms by (auto simp: close_and_report_def report_def)

lemma close_and_report_peers:
  "open_peers (snd (close_and_report hooks e h)) = open_peers h - 1"
  "fst (close_and_report hooks e h) \<noteq> Err e'"
  by (auto simp: close_and_report_def report_def settle_def and_then_def split: res.splits)

lemma settle_iff: "settle r = Panicked \<longleftrightarrow> r = Panicked" "settle r = Blocked \<longleftrightarrow> r = Blocked"
  by (simp_all add: settle_def split: res.splits)

lemma settle_not_Err [simp]: "settle r \<noteq> Err e"
  by (simp add: settle_def split: res.splits)

lemma serve_offer_open:
  "open_peers (snd (serve_offer env tid offer evs h)) = open_peers h + 1"
  "reported (snd (serve_offer env tid offer evs h)) = reported h"
  using serve_offer_peers [of h env tid offer evs] by (simp_all add: same_peers_def)

text \<open>
  The outcome of a task: it returns only by reporting one error, as its last effect, with every
  peer closed or handed over; otherwise it holds at most one peer more than before, and it has reported
  nothing, or one error to an \<open>on_err\<close> that panics or stays pending.
\<close>

definition reports_last ::
  "('sdp, 'cand, 'init, 'werr, 'err) server_hooks \<Rightarrow> (unit, unit) res set \<Rightarrow> ('sdp, 'cand, 'init, 'err) history
    \<Rightarrow> ('sdp, 'cand, 'init, 'err) history \<Rightarrow> bool" where
  "reports_last hooks R h h' \<longleftrightarrow> (\<exists>h1 e. h' = h1 @ [OnErr e] \<and> reported h1 = reported h \<and> settle (on_err_hook hooks e h1) \<in> R)"

definition task_outcome ::
  "('sdp, 'cand, 'init, 'werr, 'err) server_hooks \<Rightarrow> ('e, unit) res \<Rightarrow> ('sdp, 'cand, 'init, 'err) history
    \<Rightarrow> ('sdp, 'cand, 'init, 'err) history \<Rightarrow> bool" where
  "task_outcome hooks r h h' \<longleftrightarrow>
     (case r of
        Ok _ \<Rightarrow> reports_last hooks {Ok ()} h h' \<and> open_peers h' = open_peers h
      | Err _ \<Rightarrow> False
      | Panicked \<Rightarrow> (reported h' = reported h \<or> reports_last hooks {Panicked} h h')
          \<and> open_peers h \<le> open_peers h' \<and> open_peers h' \<le> open_peers h + 1
      | Blocked \<Rightarrow> (reported h' = reported h \<or> reports_last hooks {Blocked} h h')
          \<and> open_peers h \<le> open_peers h' \<and> open_peers h' \<le> open_peers h + 1)"

lemma reports_last_snoc:
  "reported h1 = reported h \<Longrightarrow> reports_last hooks R h (h1 @ [OnErr e]) \<longleftrightarrow> settle (on_err_hook hooks e h1) \<in> R"
  by (auto simp: reports_last_def)

lemma report_outcome:
  assumes "open_peers h1 = open_peers h" and "reported h1 = reported h"
  shows "task_outcome hooks (fst (report hooks e h1)) h (snd (report hooks e h1))"
  using assms
  by (cases "on_err_hook hooks e h1") (simp_all add: task_outcome_def report_def settle_def reports_last_snoc)

lemma close_and_report_outcome:
  assumes "open_peers h1 = open_peers h + 1" and "reported h1 = reported h"
  shows "task_outcome hooks (fst (close_and_report hooks e h1)) h (snd (close_and_report hooks e h1))"
  using assms report_outcome [of "h1 @ [ClosePeer]" h hooks e]
  by (cases "peer_close hooks h1") (simp_all add: close_and_report_def settle_def, simp_all add: task_outcome_def)

lemma connection_task_outcome:
  "task_outcome hooks (fst (connection_task env hooks tid rounds h)) h (snd (connection_task env hooks tid rounds h))"
proof (induction env hooks tid rounds h rule: connection_task.induct)
  case (1 env hooks tid h)
  show ?case by (simp add: task_outcome_def)
next
  case (2 env hooks tid e evs rounds h)
  show ?case by (simp add: report_outcome)
next
  case (3 env hooks tid offer evs rounds h)
  let ?h1 = "h @ [RecvObj (WOffer offer)]" and ?h2 = "h @ [RecvObj (WOffer offer), NewPeer]"
  obtain r h3 where so: "serve_offer env tid offer evs ?h2 = (r, h3)" by (cases "serve_offer env tid offer evs ?h2")
  with serve_offer_open [of env tid offer evs ?h2] have h3: "open_peers h3 = open_peers h + 1" "reported h3 = reported h"
    by simp_all
  show ?case
  proof (cases "new_peer_connection env ?h1")
    case (Ok u)
    note np = this
    show ?thesis
    proof (cases r)
      case (Ok v)
      then have next_round: "connection_task env hooks tid ((Inr offer, evs) # rounds) h
        = and_then (settle (on_success_hook hooks h3), h3 @ [OnSuccess tid]) (\<lambda>_ h. connection_task env hooks tid rounds h)"
        using np so by (simp add: perform_def)
      have "task_outcome hooks (fst (connection_task env hooks tid rounds (h3 @ [OnSuccess tid]))) (h3 @ [OnSuccess tid])
          (snd (connection_task env hooks tid rounds (h3 @ [OnSuccess tid])))"
        using "3.IH" np so Ok by (simp add: perform_def)
      then have "task_outcome hooks (fst (connection_task env hooks tid rounds (h3 @ [OnSuccess tid]))) h
          (snd (connection_task env hooks tid rounds (h3 @ [OnSuccess tid])))"
        using h3 by (simp add: task_outcome_def reports_last_def split: res.splits)
      with h3 show ?thesis
        unfolding next_round
        by (cases "on_success_hook hooks h3") (simp_all add: settle_def task_outcome_def)
    next
      case (Err e)
      with np so h3 show ?thesis by (simp add: perform_def close_and_report_outcome)
    qed (use np so h3 in \<open>simp_all add: perform_def task_outcome_def\<close>)
  next
    case (Err e)
    then show ?thesis by (simp add: perform_def report_outcome)
  qed (simp_all add: perform_def task_outcome_def)
qed

section \<open>Properties of the server's connections\<close>

text \<open>
  C8: What serving an offer successfully has done. The server sent one answer, before any of its
  candidates, and after it exactly the messages of its local candidates, in the order they were
  gathered, their end marker among them; it received only candidates and the client's end marker and
  added each candidate once, in order. No peer was closed and no error reported.
\<close>

theorem serve_offer_success:
  assumes "serve_offer env tid offer evs h = (Ok (), h')"
  shows "\<exists>answer used rest. evs = used @ rest
    \<and> sent h' = sent h @ WMsg (SDPAnswer answer) # json_messages env (slocals used)
    \<and> received h' = received h @ map WOptCand (sremotes used)
    \<and> added h' = added h @ jsons env (sremotes used)
    \<and> None \<in> set (slocals used) \<and> None \<in> set (sremotes used)
    \<and> open_peers h' = open_peers h + 1 \<and> reported h' = reported h"
proof -
  from assms obtain answer where
    l: "server_ice_loop env tid evs no_flags (h @ [RegisterOnDataChannel, RegisterOnIceCandidate,
        SetRemoteDescription offer, CreateAnswer, SendObj (WMsg (SDPAnswer answer)),
        SetLocalDescription answer]) = (Ok (), h')"
    by (auto simp: serve_offer_def)
  from server_ice_loop_Ok [OF l] serve_offer_open [of env tid offer evs h] assms show ?thesis
    by (fastforce simp: no_flags_def)
qed

definition demo_server_events :: "(nat, string) server_event list" where
  "demo_server_events = [SCandReady (Inr (Some 7)), SIceReady (Some 3), SCandReady (Inr None),
     SIceReady None]"

definition quiet_hooks :: "('sdp, 'cand, 'init, 'werr, 'err) server_hooks" where
  "quiet_hooks = \<lparr>on_success_hook = (\<lambda>h. Ok ()), on_err_hook = (\<lambda>e h. Ok ()), peer_close = (\<lambda>h. Ok ())\<rparr>"

lemma serve_offer_demo:
  "serve_offer (ok_env :: (nat, nat, nat, nat, unit, string, unit) server_env) ''peer'' 1 demo_server_events []
   = (Ok (), [RegisterOnDataChannel, RegisterOnIceCandidate, SetRemoteDescription 1, CreateAnswer,
       SendObj (WMsg (SDPAnswer 2)), SetLocalDescription 2, RecvObj (WOptCand (Some 7)),
       AddIceCandidate 107, SendObj (WOptMsg (Some (ICE 103))), RecvObj (WOptCand None),
       SendObj (WOptMsg None)])"
  by (simp add: serve_offer_def perform_def demo_server_events_def server_ice_loop_def no_flags_def
      ice_message_def)

theorem serve_offer_success_witness:
  "\<exists>answer used rest. demo_server_events = used @ rest
    \<and> ([WMsg (SDPAnswer 2), WOptMsg (Some (ICE 103)), WOptMsg None] :: (nat, nat, nat) wire_obj list)
        = WMsg (SDPAnswer answer)
          # json_messages (ok_env :: (nat, nat, nat, nat, unit, string, unit) server_env) (slocals used)
    \<and> ([WOptCand (Some 7), WOptCand None] :: (nat, nat, nat) wire_obj list) = map WOptCand (sremotes used)
    \<and> [107] = jsons (ok_env :: (nat, nat, nat, nat, unit, string, unit) server_env) (sremotes used)
    \<and> None \<in> set (slocals used) \<and> None \<in> set (sremotes used)"
  using serve_offer_success [OF serve_offer_demo] by simp

text \<open>
  C6: No peer connection is leaked. When a connection task has returned, every peer connection it
  created has been closed or handed to \<open>on_success\<close>; while it runs, and when it panics, at most one
  is outstanding.
\<close>

theorem connection_task_no_leak:
  "case connection_task env hooks tid rounds [] of
     (Ok _, h) \<Rightarrow> open_peers h = 0
   | (Err _, h) \<Rightarrow> False
   | (_, h) \<Rightarrow> 0 \<le> open_peers h \<and> open_peers h \<le> 1"
  using connection_task_outcome [of hooks env tid rounds "[]"]
  by (auto simp: task_outcome_def split: prod.splits res.splits)

text \<open>
  C31: A connection task reports at most one error, and the report is its last effect. A task that returns
  has reported exactly one, and \<open>on_err\<close> has returned. A task that ends by a panic has reported nothing
  (the panic came from the crate, from \<open>on_success\<close> or from the task itself) or it is \<open>on_err\<close> that
  panicked, and the same holds of a task that waits: nothing is reported yet, or \<open>on_err\<close> is pending.
\<close>

theorem connection_task_reports_once:
  "case connection_task env hooks tid rounds [] of
     (Ok _, h) \<Rightarrow> \<exists>h1 e. h = h1 @ [OnErr e] \<and> reported h1 = [] \<and> settle (on_err_hook hooks e h1) = (Ok () :: (unit, unit) res)
   | (Err _, h) \<Rightarrow> False
   | (Panicked, h) \<Rightarrow> reported h = [] \<or> (\<exists>h1 e. h = h1 @ [OnErr e] \<and> reported h1 = [] \<and> on_err_hook hooks e h1 = Panicked)
   | (Blocked, h) \<Rightarrow> reported h = [] \<or> (\<exists>h1 e. h = h1 @ [OnErr e] \<and> reported h1 = [] \<and> on_err_hook hooks e h1 = Blocked)"
  using connection_task_outcome [of hooks env tid rounds "[]"]
  by (auto simp: task_outcome_def reports_last_def settle_iff split: prod.splits res.splits)

text \<open>
  On an error while a peer is being served, the peer is closed before the error is reported,
  and the report names the error: the last two effects are \<open>peer.close()\<close> and \<open>on_err\<close>.
\<close>

theorem connection_task_closes_then_reports:
  assumes "new_peer_connection env (h @ [RecvObj (WOffer offer)]) = Ok ()"
    and "serve_offer env tid offer evs (h @ [RecvObj (WOffer offer), NewPeer]) = (Err e, h1)"
    and "\<And>h. settle (peer_close hooks h) = (Ok () :: (('ae, 'de, 'werr) ServerError, unit) res)"
  shows "snd (connection_task (env :: ('sdp, 'cand, 'init, 'chan, 'ae, 'de, 'werr) server_env)
      hooks tid ((Inr offer, evs) # rounds) h) = h1 @ [ClosePeer, OnErr e]"
  using assms by (simp add: perform_def close_and_report_def report_def)

theorem connection_task_closes_then_reports_witness:
  "snd (connection_task (ok_env :: (nat, nat, nat, nat, unit, string, unit) server_env) quiet_hooks
      ''peer'' [(Inr 1, [SCandReady (Inl (IOError (IoErr UnexpectedEof [])))])] [])
   = [RecvObj (WOffer 1), NewPeer, RegisterOnDataChannel, RegisterOnIceCandidate,
      SetRemoteDescription 1, CreateAnswer, SendObj (WMsg (SDPAnswer 2)), SetLocalDescription 2]
     @ [ClosePeer, OnErr (Server_IOError (IoErr UnexpectedEof []))]"
  by (rule connection_task_closes_then_reports)
    (simp_all add: perform_def serve_offer_def server_ice_loop_def quiet_hooks_def settle_def)

text \<open>
  C7: The server serves an offer to the end: if the crate and the transport do not fail, the client
  sends candidates and its end marker, and the local gathering ends, then the peer is handed to
  \<open>on_success\<close> and the task goes on to the next round, in whatever order \<open>select!\<close> takes the events.
\<close>

theorem connection_task_serves:
  assumes "env_succeeds env" and "\<And>h. settle (on_success_hook hooks h) = (Ok () :: (('ae, 'de, 'werr) ServerError, unit) res)"
    and "\<forall>ev \<in> set evs. sclean ev" and "None \<in> set (slocals evs)" and "None \<in> set (sremotes evs)"
  shows "\<exists>h1. connection_task (env :: ('sdp, 'cand, 'init, 'chan, 'ae, 'de, 'werr) server_env)
      hooks tid ((Inr offer, evs) # rounds) h = connection_task env hooks tid rounds (h1 @ [OnSuccess tid])"
proof -
  obtain answer where "create_answer env (h @ [RecvObj (WOffer offer), NewPeer, RegisterOnDataChannel,
      RegisterOnIceCandidate, SetRemoteDescription offer]) = Ok answer"
    using env_succeedsD(4) [OF assms(1)] by blast
  moreover have "fst (server_ice_loop env tid evs no_flags h2) = Ok ()" for h2
    using server_ice_loop_progress [OF assms(1,3), of no_flags] assms(4,5) by (simp add: no_flags_def)
  ultimately have "fst (serve_offer env tid offer evs (h @ [RecvObj (WOffer offer), NewPeer])) = Ok ()"
    by (simp add: serve_offer_def perform_def env_succeedsD [OF assms(1)])
  then obtain h1 where "serve_offer env tid offer evs (h @ [RecvObj (WOffer offer), NewPeer]) = (Ok (), h1)"
    by (cases "serve_offer env tid offer evs (h @ [RecvObj (WOffer offer), NewPeer])") simp
  then show ?thesis
    by (intro exI [of _ h1]) (simp add: perform_def env_succeedsD [OF assms(1)] assms(2))
qed

theorem connection_task_serves_witness:
  "\<exists>h1. connection_task (ok_env :: (nat, nat, nat, nat, unit, string, unit) server_env) quiet_hooks
      ''peer'' [(Inr 1, demo_server_events), (Inr 5, [])] []
    = connection_task ok_env quiet_hooks ''peer'' [(Inr 5, [])] (h1 @ [OnSuccess ''peer''])"
  by (rule connection_task_serves [OF ok_env_succeeds])
    (simp_all add: quiet_hooks_def settle_def demo_server_events_def)

end
