(* ===== verification/Handshake.thy ===== *)
theory Handshake
  imports Upgrade_Server "HOL-Library.Sublist"
begin

text \<open>
  Client and server together. First the traces: what a finished client and a finished server that are
  connected by a transport which keeps the order of the objects agree on. Then the candidate exchange as
  a joint step relation over two queues of objects, with the step functions of both sides: no
  interleaving of them is stuck, all of them end, and they leave the transport empty.
\<close>

section \<open>Agreement of the traces\<close>

text \<open>A prefix that has the only end marker of a list is the whole list.\<close>

lemma whole_if_marker:
  assumes "xs @ ys = zs @ [m]" and "m \<in> set xs" and "m \<notin> set zs"
  shows "ys = []"
proof (cases ys rule: rev_cases)
  case (snoc us u)
  with assms(1) have "zs = xs @ us" by simp
  with assms(2,3) show ?thesis by simp
qed simp

lemma used_all:
  assumes "xs @ ys = map Some cs @ [None]" and "None \<in> set xs"
  shows "xs = map Some cs @ [None]"
  using whole_if_marker [of xs ys "map Some cs" None] assms by auto

lemma json_messages_simps [simp]:
  "json_messages env (None # cs) = WOptMsg None # json_messages env cs"
  "json_messages env (Some x # cs) = (case cand_to_json env x of Inl _ \<Rightarrow> [] | Inr j \<Rightarrow> [WOptMsg (Some (ICE j))])
     @ json_messages env cs"
  "jsons env (None # cs) = jsons env cs"
  "jsons env (Some x # cs) = (case cand_to_json env x of Inl _ \<Rightarrow> [] | Inr j \<Rightarrow> [j]) @ jsons env cs"
  by (simp_all add: json_messages_def jsons_def ice_message_def split: sum.splits)

lemma json_messages_no_marker: "WOptMsg None \<notin> set (json_messages env (map Some cs))"
  by (induction cs) (auto split: sum.splits)

lemma ice_of_json_messages: "map WOptMsg ms = json_messages env cs \<Longrightarrow> concat (map ice_of ms) = jsons env cs"
proof (induction cs arbitrary: ms)
  case (Cons c cs)
  then show ?case by (cases c) (auto simp: map_eq_Cons_conv split: sum.splits)
qed simp

lemma prefix_map_Cons:
  assumes "prefix (a # map f xs) (b # map f ys)"
  shows "a = b" and "inj f \<Longrightarrow> prefix xs ys"
proof -
  from assms obtain zs where zs: "a = b" "map f ys = map f xs @ zs" by (auto simp: prefix_def)
  then obtain us vs where "ys = us @ vs" "map f xs = map f us" by (auto simp: map_eq_append_conv)
  with zs show "a = b" and "inj f \<Longrightarrow> prefix xs ys" by (auto simp: prefix_def dest: map_injective)
qed

text \<open>The two traces of a finished upgrade, side by side.\<close>

lemma client_trace:
  assumes "upgrade env cfgs msgs evs [] = (Ok channels :: (('de, 'werr) ClientError, _) res, hc)"
    and "locals evs = map Some ccs @ [None]"
  shows "\<exists>offer answer early ms. sent hc = WOffer offer # map WOptCand (map Some ccs @ [None])
    \<and> received hc = map (WMsg \<circ> ICE) early @ WMsg (SDPAnswer answer) # map WOptMsg ms
    \<and> added hc = early @ concat (map ice_of ms) \<and> None \<in> set ms"
proof -
  from assms(1) obtain h1 where n: "negotiate env cfgs msgs [] = (Ok channels :: (('de, 'werr) ClientError, _) res, h1)"
    and l: "client_ice_loop env evs no_flags (h1 @ [RegisterOnIceCandidate])
      = (Ok () :: (('de, 'werr) ClientError, _) res, hc)" by (rule upgrade_OkE)
  from client_ice_loop_Ok [OF l] obtain used rest where u: "evs = used @ rest"
    "sent hc = sent h1 @ map WOptCand (locals used)" "received hc = received h1 @ map WOptMsg (remotes used)"
    "added hc = added h1 @ concat (map ice_of (remotes used))" "None \<in> set (locals used)" "None \<in> set (remotes used)"
    by (auto simp: no_flags_def)
  have "locals used = map Some ccs @ [None]"
    by (rule used_all [of _ "locals rest"]) (use u assms(2) in \<open>simp_all add: locals_append\<close>)
  with u negotiate_Ok [OF n] show ?thesis by fastforce
qed

lemma slocals_append: "slocals (xs @ ys) = slocals xs @ slocals ys"
  by (induction xs rule: slocals.induct) auto

lemma server_trace:
  assumes "serve_offer env tid offer evs h = (Ok (), hs)" and "slocals evs = map Some scs @ [None]"
  shows "\<exists>answer cs. sent hs = sent h @ WMsg (SDPAnswer answer) # json_messages env (map Some scs @ [None])
    \<and> received hs = received h @ map WOptCand cs \<and> added hs = added h @ jsons env cs \<and> None \<in> set cs"
proof -
  from assms(1) obtain answer where l: "server_ice_loop env tid evs no_flags (h @ [RegisterOnDataChannel,
      RegisterOnIceCandidate, SetRemoteDescription offer, CreateAnswer, SendObj (WMsg (SDPAnswer answer)),
      SetLocalDescription answer]) = (Ok (), hs)"
    by (auto simp: serve_offer_def)
  from server_ice_loop_Ok [OF l] obtain used rest where u: "evs = used @ rest"
    "sent hs = sent h @ WMsg (SDPAnswer answer) # json_messages env (slocals used)"
    "received hs = received h @ map WOptCand (sremotes used)" "added hs = added h @ jsons env (sremotes used)"
    "None \<in> set (slocals used)" "None \<in> set (sremotes used)"
    by (auto simp: no_flags_def)
  have "slocals used = map Some scs @ [None]"
    by (rule used_all [of _ "slocals rest"]) (use u assms(2) in \<open>simp_all add: slocals_append\<close>)
  with u show ?thesis by auto
qed

text \<open>
  A client and a server that both finish agree. If the upgrade of the client and the service of the
  server have succeeded over a transport that delivers objects in order (each side received a prefix of
  what the other sent), and each side's gathering ended with its end marker, then each has received
  exactly what the other has sent, so that nothing is left in the transport for the next round; the
  server served the offer that the client made and the client has the answer that the server gave; and
  each side has added all candidates of the other, once and in the order of their gathering.
\<close>

lemma handshake_agreement:
  assumes "upgrade cenv cfgs msgs cevs [] = (Ok channels :: (('de, 'werr) ClientError, _) res, hc)"
    and "serve_offer senv tid offer sevs [RecvObj (WOffer offer), NewPeer] = (Ok (), hs)"
    and "prefix (received hc) (sent hs)" and "prefix (received hs) (sent hc)"
    and "locals cevs = map Some ccs @ [None]" and "slocals sevs = map Some scs @ [None]"
  shows "received hc = sent hs \<and> received hs = sent hc
    \<and> sent hc = WOffer offer # map WOptCand (map Some ccs @ [None])
    \<and> (\<exists>answer. received hc = WMsg (SDPAnswer answer) # json_messages senv (map Some scs @ [None]))
    \<and> added hc = jsons senv (map Some scs) \<and> added hs = jsons senv (map Some ccs)"
proof -
  from client_trace [OF assms(1,5)] obtain offer' answer early ms where
    c: "sent hc = WOffer offer' # map WOptCand (map Some ccs @ [None])"
      "received hc = map (WMsg \<circ> ICE) early @ WMsg (SDPAnswer answer) # map WOptMsg ms"
      "added hc = early @ concat (map ice_of ms)" "None \<in> set ms" by blast
  from server_trace [OF assms(2,6)] obtain answer' cs where
    s: "sent hs = WMsg (SDPAnswer answer') # json_messages senv (map Some scs @ [None])"
      "received hs = WOffer offer # map WOptCand cs" "added hs = jsons senv cs" "None \<in> set cs" by auto
  from assms(3) c(2) s(1) have e: "early = []" by (cases early) auto
  with assms(3) c(2) s(1) have a: "answer = answer'"
    and p: "prefix (map WOptMsg ms) (json_messages senv (map Some scs) @ [WOptMsg None])" by simp_all
  from p obtain ys where ys: "map WOptMsg ms @ ys = json_messages senv (map Some scs) @ [WOptMsg None]"
    by (auto simp: prefix_def)
  have "ys = []" by (rule whole_if_marker [OF ys]) (use c(4) json_messages_no_marker in auto)
  with ys have m: "map WOptMsg ms = json_messages senv (map Some scs @ [None])" by simp
  from prefix_map_Cons [OF assms(4) [unfolded c(1) s(2)]] have o: "offer = offer'"
    and "prefix cs (map Some ccs @ [None])" by (auto simp: inj_def)
  then obtain zs where "cs @ zs = map Some ccs @ [None]" by (auto simp: prefix_def)
  from used_all [OF this s(4)] have cs: "cs = map Some ccs @ [None]" .
  from ice_of_json_messages [OF m] have "concat (map ice_of ms) = jsons senv (map Some scs)" by simp
  with c s e a o m cs show ?thesis by simp
qed


text \<open>A client and a server that exchange one candidate each.\<close>

definition demo_client_run ::
  "((string, unit) ClientError, (string \<times> nat) list) res \<times> (nat, nat, nat, unit) history" where
  "demo_client_run = upgrade ok_env [(''init'', TCP_DATA_CHANNEL)] [Inr (SDPAnswer 2)]
     [IceReady (Some 7), MsgReady (Inr (Some (ICE 103))), IceReady None, MsgReady (Inr None)] []"

definition demo_server_run ::
  "((unit, string, unit) ServerError, unit) res \<times> (nat, nat, nat, unit, string, unit) server_history" where
  "demo_server_run = serve_offer ok_env ''peer'' 1 demo_server_events [RecvObj (WOffer 1), NewPeer]"

lemmas demo_run_defs = demo_client_run_def demo_server_run_def upgrade_def negotiate_def client_ice_loop_def
  serve_offer_def server_ice_loop_def perform_def demo_server_events_def no_flags_def ice_message_def

lemma demo_runs:
  "demo_client_run = (Ok [(''init'', 1)], snd demo_client_run)" "demo_server_run = (Ok (), snd demo_server_run)"
  "received (snd demo_client_run) = [WMsg (SDPAnswer 2), WOptMsg (Some (ICE 103)), WOptMsg None]"
  "sent (snd demo_client_run) = [WOffer 1, WOptCand (Some 7), WOptCand None]"
  "received (snd demo_server_run) = [WOffer 1, WOptCand (Some 7), WOptCand None]"
  "sent (snd demo_server_run) = [WMsg (SDPAnswer 2), WOptMsg (Some (ICE 103)), WOptMsg None]"
  by (simp_all add: demo_run_defs)

subsection \<open>Typed objects on the wire\<close>

text \<open>
  The type at which an object is serialised. The encoding is not self-describing: a receiver decodes at
  the type it asks for, and gets the object back if that is the type it was encoded at.
\<close>

datatype wire_kind = KOffer | KMsg | KOptMsg | KOptCand

fun kind_of :: "('sdp, 'cand, 'init) wire_obj \<Rightarrow> wire_kind" where
  "kind_of (WOffer _) = KOffer"
| "kind_of (WMsg _) = KMsg"
| "kind_of (WOptMsg _) = KOptMsg"
| "kind_of (WOptCand _) = KOptCand"

definition decodes :: "(wire_kind \<Rightarrow> bytes \<Rightarrow> ('sdp, 'cand, 'init) wire_obj option) \<Rightarrow> bytes list
    \<Rightarrow> ('sdp, 'cand, 'init) wire_obj list \<Rightarrow> bool" where
  "decodes dec bs ys \<longleftrightarrow> list_all2 (\<lambda>b y. dec (kind_of y) b = Some y) bs ys"

lemma decodes_Cons: "decodes dec bs (y # ys) \<longleftrightarrow> (\<exists>b bs'. bs = b # bs' \<and> dec (kind_of y) b = Some y \<and> decodes dec bs' ys)"
  by (auto simp: decodes_def list_all2_Cons2)

text \<open>A receiver that asks for the types in the order of the sender receives a prefix of what was sent.\<close>

lemma decodes_prefix:
  assumes codec: "\<And>x. dec (kind_of x) (ser x) = Some x"
    and "decodes dec bs ys" and "prefix bs (map ser xs)" and "prefix (map kind_of ys) (map kind_of xs)"
  shows "prefix ys xs"
  using assms(2-4)
proof (induction ys arbitrary: bs xs)
  case (Cons y ys)
  then obtain b bs' where b: "bs = b # bs'" "dec (kind_of y) b = Some y" "decodes dec bs' ys" by (auto simp: decodes_Cons)
  with Cons.prems obtain x xs' where x: "xs = x # xs'" "b = ser x" "prefix bs' (map ser xs')"
    "kind_of y = kind_of x" "prefix (map kind_of ys) (map kind_of xs')" by (cases xs) auto
  have "dec (kind_of x) (ser x) = Some y" using b(2) unfolding x(2,4) .
  with codec [of x] have "y = x" by simp
  with x(1) Cons.IH [OF b(3) x(3,5)] show ?case by simp
qed simp

lemma prefix_replicate: "prefix (replicate m a) (replicate n a) \<longleftrightarrow> m \<le> n"
proof (induction m arbitrary: n)
  case (Suc m)
  then show ?case by (cases n) auto
qed simp

lemma kinds_of_lists [simp]:
  "map kind_of (map WOptCand cs) = replicate (length cs) KOptCand"
  "map kind_of (map WOptMsg ms) = replicate (length ms) KOptMsg"
  "map kind_of (json_messages env cs) = replicate (length (json_messages env cs)) KOptMsg"
proof -
  show "map kind_of (map WOptCand cs) = replicate (length cs) KOptCand" by (induction cs) simp_all
  show "map kind_of (map WOptMsg ms) = replicate (length ms) KOptMsg" by (induction ms) simp_all
  show "map kind_of (json_messages env cs) = replicate (length (json_messages env cs)) KOptMsg"
    by (induction cs) (auto simp: json_messages_def ice_message_def split: option.splits sum.splits)
qed

section \<open>The candidate exchange, jointly\<close>

text \<open>
  The state of the two trickle loops and of the transport between them: the flags of each side (\<open>None\<close>
  once it has left its loop), the candidates that each side still has to gather, the objects in transit,
  and the histories.
\<close>

record ('sdp, 'cand, 'init, 'ce, 'se) exchange =
  client_flags :: "ice_flags option"
  server_flags :: "ice_flags option"
  client_gather :: "'cand option list"
  server_gather :: "'cand option list"
  to_server :: "('sdp, 'cand, 'init) wire_obj list"
  from_server :: "('sdp, 'cand, 'init) wire_obj list"
  client_hist :: "('sdp, 'cand, 'init, 'ce) history"
  server_hist :: "('sdp, 'cand, 'init, 'se) history"

text \<open>The objects that a step has sent.\<close>

definition sent_since :: "('sdp, 'cand, 'init, 'err) history \<Rightarrow> ('sdp, 'cand, 'init, 'err) history \<Rightarrow> ('sdp, 'cand, 'init) wire_obj list"
  where
  "sent_since h h' = drop (length (sent h)) (sent h')"

text \<open>
  A turn of either loop takes a gathered candidate, or the first object in transit if it has the type that
  the loop asks for; anything else would be a deserialisation error.
\<close>

inductive exchange_step ::
  "('sdp, 'cand, 'init, 'chan, 'werr, 'ce) webrtc_env
    \<Rightarrow> ('sdp, 'cand, 'init, 'chan2, 'ae, 'de, 'werr2) server_env \<Rightarrow> string
    \<Rightarrow> ('sdp, 'cand, 'init, 'ce, ('ae, 'de, 'werr2) ServerError) exchange
    \<Rightarrow> ('sdp, 'cand, 'init, 'ce, ('ae, 'de, 'werr2) ServerError) exchange \<Rightarrow> bool"
  for cenv senv tid where
  client_gathers: "client_flags x = Some fl \<Longrightarrow> client_gather x = c # cs
    \<Longrightarrow> client_ice_step cenv (IceReady c :: ('sdp, 'cand, 'init, 'de) client_event) fl (client_hist x) = (Ok r, h)
    \<Longrightarrow> exchange_step cenv senv tid x (x\<lparr>client_flags := flags_after r, client_gather := cs,
      to_server := to_server x @ sent_since (client_hist x) h, client_hist := h\<rparr>)"
| client_receives: "client_flags x = Some fl \<Longrightarrow> from_server x = WOptMsg m # q
    \<Longrightarrow> client_ice_step cenv (MsgReady (Inr m) :: ('sdp, 'cand, 'init, 'de) client_event) fl (client_hist x) = (Ok r, h)
    \<Longrightarrow> exchange_step cenv senv tid x (x\<lparr>client_flags := flags_after r, from_server := q,
      to_server := to_server x @ sent_since (client_hist x) h, client_hist := h\<rparr>)"
| server_gathers: "server_flags x = Some fl \<Longrightarrow> server_gather x = c # cs
    \<Longrightarrow> server_ice_step senv tid (SIceReady c) fl (server_hist x) = (Ok r, h)
    \<Longrightarrow> exchange_step cenv senv tid x (x\<lparr>server_flags := flags_after r, server_gather := cs,
      from_server := from_server x @ sent_since (server_hist x) h, server_hist := h\<rparr>)"
| server_receives: "server_flags x = Some fl \<Longrightarrow> to_server x = WOptCand c # q
    \<Longrightarrow> server_ice_step senv tid (SCandReady (Inr c)) fl (server_hist x) = (Ok r, h)
    \<Longrightarrow> exchange_step cenv senv tid x (x\<lparr>server_flags := flags_after r, to_server := q,
      from_server := from_server x @ sent_since (server_hist x) h, server_hist := h\<rparr>)"

definition exchange_init ::
  "'cand list \<Rightarrow> 'cand list \<Rightarrow> ('sdp, 'cand, 'init, 'ce) history \<Rightarrow> ('sdp, 'cand, 'init, 'se) history
    \<Rightarrow> ('sdp, 'cand, 'init, 'ce, 'se) exchange" where
  "exchange_init ccs scs hc hs = \<lparr>client_flags = Some no_flags, server_flags = Some no_flags,
     client_gather = map Some ccs @ [None], server_gather = map Some scs @ [None],
     to_server = [], from_server = [], client_hist = hc, server_hist = hs\<rparr>"

subsection \<open>One direction\<close>

text \<open>
  A direction from a sender to a receiver, reduced to the end markers in transit (\<open>q\<close>) and still to be
  gathered (\<open>g\<close>): the sender is done when nothing is left to gather, the receiver when it has taken the
  marker, which is the last object of the direction.
\<close>

definition direction :: "bool \<Rightarrow> bool \<Rightarrow> bool list \<Rightarrow> bool list \<Rightarrow> bool" where
  "direction sd rd q g \<longleftrightarrow> sd = (g = []) \<and> (if rd then q @ g = [] else \<exists>n. q @ g = replicate n False @ [True])"

lemma direction_init: "direction False False [] (replicate n False @ [True])"
  by (auto simp: direction_def)

lemma direction_send:
  assumes "direction sd rd q (b # g)"
  shows "direction (sd \<or> b) rd (q @ [b]) g"
proof -
  from assms obtain n where n: "\<not> rd" "\<not> sd" "(q @ [b]) @ g = replicate n False @ [True]"
    by (auto simp: direction_def split: if_splits)
  have "b = (g = [])"
  proof (cases g rule: rev_cases)
    case (snoc us u)
    with n(3) have "q @ b # us = replicate n False" by simp
    then have "b \<in> set (replicate n False)" by (metis in_set_conv_decomp)
    with snoc show ?thesis by auto
  qed (use n(3) in simp)
  with n show ?thesis by (auto simp: direction_def)
qed

lemma direction_receive:
  assumes "direction sd rd (b # q) g"
  shows "direction sd (rd \<or> b) q g"
proof -
  from assms obtain n where n: "\<not> rd" "sd = (g = [])" "b # q @ g = replicate n False @ [True]"
    by (auto simp: direction_def split: if_splits)
  then show ?thesis by (cases n) (auto simp: direction_def)
qed

lemma direction_moves: "direction sd False q g \<Longrightarrow> q \<noteq> [] \<or> \<not> sd"
  by (auto simp: direction_def)


subsection \<open>The invariant\<close>

abbreviation is_end :: "'a option \<Rightarrow> bool" where
  "is_end c \<equiv> c = None"

definition exchange_inv :: "('sdp, 'cand, 'init, 'ce, 'se) exchange \<Rightarrow> bool" where
  "exchange_inv x \<longleftrightarrow> flags_ok (client_flags x) \<and> flags_ok (server_flags x)
     \<and> (\<exists>q. to_server x = map WOptCand q \<and> direction (sending_done (client_flags x)) (receiving_done (server_flags x))
          (map is_end q) (map is_end (client_gather x)))
     \<and> (\<exists>q. from_server x = map WOptMsg q \<and> set q \<subseteq> insert None (range (Some \<circ> ICE))
          \<and> direction (sending_done (server_flags x)) (receiving_done (client_flags x))
          (map is_end q) (map is_end (server_gather x)))"

text \<open>What a turn of the client does to its flags and what it sends, and the same for the server.\<close>

lemma client_turn:
  assumes "client_ice_step env ev fl h = (Ok r, h')" and "flags_ok (Some fl)"
  shows "sending_done (flags_after r) = (done_sending_ice fl \<or> None \<in> set (locals [ev]))"
    and "receiving_done (flags_after r) = (done_receiving_ice fl \<or> None \<in> set (remotes [ev]))"
    and "flags_ok (flags_after r)" and "sent_since h h' = map WOptCand (locals [ev])"
  using client.body_after [OF assms] client.body_effects [OF assms(1)] by (simp_all add: sent_since_def)

lemma server_turn:
  assumes "server_ice_step env tid ev fl h = (Ok r, h')" and "flags_ok (Some fl)"
  shows "sending_done (flags_after r) = (done_sending_ice fl \<or> None \<in> set (slocals [ev]))"
    and "receiving_done (flags_after r) = (done_receiving_ice fl \<or> None \<in> set (sremotes [ev]))"
    and "flags_ok (flags_after r)" and "sent_since h h' = json_messages env (slocals [ev])"
  using server.body_after [OF assms] server.body_effects [OF assms(1)] by (simp_all add: sent_since_def)

lemma server_gather_sends:
  assumes "server_ice_step env tid (SIceReady c) fl h = (Ok r, h')"
  shows "\<exists>m. json_messages env [c] = [WOptMsg m] \<and> is_end m = is_end c \<and> m \<in> insert None (range (Some \<circ> ICE))"
  using assms by (cases c) (auto simp: ice_message_def split: sum.splits)

lemma flags_done [simp]:
  "sending_done (Some fl) = done_sending_ice fl" "receiving_done (Some fl) = done_receiving_ice fl"
  "sending_done None" "receiving_done None"
  by (simp_all add: sending_done_def receiving_done_def)

lemma exchange_inv_step:
  fixes senv :: "('sdp, 'cand, 'init, 'chan, 'ae, 'de, 'werr) server_env"
  assumes "exchange_inv x" and "exchange_step cenv senv tid x y"
  shows "exchange_inv y"
  using assms(2)
proof cases
  case (client_gathers fl c cs r h)
  note y = client_gathers(1) and f = client_gathers(2,3) and st = client_gathers(4)
  from assms(1) f obtain q where q: "to_server x = map WOptCand q"
    "direction (done_sending_ice fl) (receiving_done (server_flags x)) (map is_end q) (is_end c # map is_end cs)"
    and ok: "flags_ok (Some fl)" by (auto simp: exchange_inv_def)
  from direction_send [OF q(2)] client_turn [OF st ok] assms(1) f q(1) show ?thesis
    by (auto simp: y exchange_inv_def intro!: exI [of _ "q @ [c]"])
next
  case (client_receives fl m q r h)
  note y = client_receives(1) and f = client_receives(2,3) and st = client_receives(4)
  from assms(1) f obtain p where p: "q = map WOptMsg p" "set p \<subseteq> insert None (range (Some \<circ> ICE))"
    "direction (sending_done (server_flags x)) (done_receiving_ice fl) (is_end m # map is_end p) (map is_end (server_gather x))"
    and ok: "flags_ok (Some fl)" by (auto simp: exchange_inv_def)
  from direction_receive [OF p(3)] client_turn [OF st ok] assms(1) f p(1,2) show ?thesis
    by (auto simp: y exchange_inv_def intro!: exI [of _ p])
next
  case (server_gathers fl c cs r h)
  note y = server_gathers(1) and f = server_gathers(2,3) and st = server_gathers(4)
  from assms(1) f obtain q where q: "from_server x = map WOptMsg q" "set q \<subseteq> insert None (range (Some \<circ> ICE))"
    "direction (done_sending_ice fl) (receiving_done (client_flags x)) (map is_end q) (is_end c # map is_end cs)"
    and ok: "flags_ok (Some fl)" by (auto simp: exchange_inv_def)
  obtain m where m: "json_messages senv [c] = [WOptMsg m]" "is_end m = is_end c" "m \<in> insert None (range (Some \<circ> ICE))"
    using server_gather_sends [OF st] by blast
  from direction_send [OF q(3)] server_turn [OF st ok] assms(1) f q(1,2) m show ?thesis
    by (auto simp: y exchange_inv_def intro!: exI [of _ "q @ [m]"])
next
  case (server_receives fl c q r h)
  note y = server_receives(1) and f = server_receives(2,3) and st = server_receives(4)
  from assms(1) f obtain p where p: "q = map WOptCand p"
    "direction (sending_done (client_flags x)) (done_receiving_ice fl) (is_end c # map is_end p) (map is_end (client_gather x))"
    and ok: "flags_ok (Some fl)" by (auto simp: exchange_inv_def)
  from direction_receive [OF p(2)] server_turn [OF st ok] assms(1) f p(1) show ?thesis
    by (auto simp: y exchange_inv_def intro!: exI [of _ p])
qed

lemma gathering_marks: "map (is_end \<circ> Some) cs = replicate (length cs) False"
  by (induction cs) simp_all

lemma exchange_inv_init: "exchange_inv (exchange_init ccs scs hc hs)"
  by (simp add: exchange_inv_def exchange_init_def no_flags_def flags_ok_def gathering_marks direction_init)

interpretation exchange: inductive_system "\<lambda>x. x = exchange_init ccs scs hc hs" "exchange_step cenv senv tid" exchange_inv
  for ccs scs hc hs cenv senv tid
  by unfold_locales (auto simp: exchange_inv_init intro: exchange_inv_step)


subsection \<open>Progress and termination\<close>

definition exchange_work :: "('sdp, 'cand, 'init, 'ce, 'se) exchange \<Rightarrow> nat" where
  "exchange_work x = 2 * length (client_gather x) + 2 * length (server_gather x)
     + length (to_server x) + length (from_server x)"

definition exchange_over :: "('sdp, 'cand, 'init, 'ce, 'se) exchange \<Rightarrow> bool" where
  "exchange_over x \<longleftrightarrow> client_flags x = None \<and> server_flags x = None"

lemma exchange_step_work:
  assumes "exchange_inv x" and "exchange_step cenv senv tid x y"
  shows "exchange_work y < exchange_work x"
  using assms(2)
proof cases
  case (client_gathers fl c cs r h)
  have "flags_ok (Some fl)" using assms(1) client_gathers(2) by (simp add: exchange_inv_def)
  from client_turn(4) [OF client_gathers(4) this] client_gathers(1,3) show ?thesis by (simp add: exchange_work_def)
next
  case (client_receives fl m q r h)
  have "flags_ok (Some fl)" using assms(1) client_receives(2) by (simp add: exchange_inv_def)
  from client_turn(4) [OF client_receives(4) this] client_receives(1,3) show ?thesis by (simp add: exchange_work_def)
next
  case (server_gathers fl c cs r h)
  have "flags_ok (Some fl)" using assms(1) server_gathers(2) by (simp add: exchange_inv_def)
  from server_turn(4) [OF server_gathers(4) this] server_gather_sends [OF server_gathers(4)] server_gathers(1,3)
  show ?thesis by (auto simp: exchange_work_def)
next
  case (server_receives fl c q r h)
  have "flags_ok (Some fl)" using assms(1) server_receives(2) by (simp add: exchange_inv_def)
  from server_turn(4) [OF server_receives(4) this] server_receives(1,3) show ?thesis by (simp add: exchange_work_def)
qed

lemma client_step_total:
  assumes "env_succeeds env" and "clean ev"
  shows "\<exists>r h'. client_ice_step env ev fl h = (Ok r, h')"
  using assms(2) by (cases ev rule: clean_cases) (auto simp: perform_def env_succeedsD [OF assms(1)])

lemma server_step_total:
  assumes "env_succeeds env" and "sclean ev"
  shows "\<exists>r h'. server_ice_step env tid ev fl h = (Ok r, h')"
proof (cases "(env, tid, ev, fl, h)" rule: server_ice_step.cases)
  case (2 env' tid' c fl' h')
  have "\<exists>m. ice_message env c = Inr m"
  proof (cases c)
    case (Some x)
    from env_succeedsD(8) [OF assms(1), of x] obtain j where "cand_to_json env x = Inr j" by blast
    with Some show ?thesis by (simp add: ice_message_def)
  qed simp
  moreover have "ev = SIceReady c" using 2 by simp
  ultimately show ?thesis by (auto simp: perform_def env_succeedsD [OF assms(1)])
next
  case (5 env' tid' c fl' h')
  obtain j where "cand_to_json env c = Inr j" using env_succeedsD(8) [OF assms(1)] by blast
  moreover have "ev = SCandReady (Inr (Some c))" using 5 by simp
  ultimately show ?thesis by (auto simp: perform_def env_succeedsD [OF assms(1)])
qed (use assms(2) in auto)

text \<open>The turns that are possible when nothing fails.\<close>

lemma client_can_gather:
  fixes senv :: "('sdp, 'cand, 'init, 'chan, 'ae, 'de, 'werr) server_env"
  assumes "env_succeeds cenv" and "client_flags x = Some fl" and "client_gather x = c # cs"
  shows "\<exists>y. exchange_step cenv senv tid x y"
proof -
  have "clean (IceReady c :: ('sdp, 'cand, 'init, 'de) client_event)" by simp
  from client_step_total [OF assms(1) this, of fl "client_hist x"] obtain r h where
    "client_ice_step cenv (IceReady c :: ('sdp, 'cand, 'init, 'de) client_event) fl (client_hist x) = (Ok r, h)" by blast
  from client_gathers [OF assms(2,3) this] show ?thesis ..
qed

lemma client_can_receive:
  fixes senv :: "('sdp, 'cand, 'init, 'chan, 'ae, 'de, 'werr) server_env"
  assumes "env_succeeds cenv" and "client_flags x = Some fl" and "from_server x = WOptMsg m # q"
    and "m \<in> insert None (range (Some \<circ> ICE))"
  shows "\<exists>y. exchange_step cenv senv tid x y"
proof -
  have "clean (MsgReady (Inr m) :: ('sdp, 'cand, 'init, 'de) client_event)" using assms(4) by auto
  from client_step_total [OF assms(1) this, of fl "client_hist x"] obtain r h where
    "client_ice_step cenv (MsgReady (Inr m) :: ('sdp, 'cand, 'init, 'de) client_event) fl (client_hist x) = (Ok r, h)" by blast
  from client_receives [OF assms(2,3) this] show ?thesis ..
qed

lemma server_can_gather:
  assumes "env_succeeds senv" and "server_flags x = Some fl" and "server_gather x = c # cs"
  shows "\<exists>y. exchange_step cenv senv tid x y"
proof -
  obtain r h where "server_ice_step senv tid (SIceReady c) fl (server_hist x) = (Ok r, h)"
    using server_step_total [OF assms(1), of "SIceReady c" tid fl "server_hist x"] by auto
  from server_gathers [OF assms(2,3) this] show ?thesis ..
qed

lemma server_can_receive:
  assumes "env_succeeds senv" and "server_flags x = Some fl" and "to_server x = WOptCand c # q"
  shows "\<exists>y. exchange_step cenv senv tid x y"
proof -
  obtain r h where "server_ice_step senv tid (SCandReady (Inr c)) fl (server_hist x) = (Ok r, h)"
    using server_step_total [OF assms(1), of "SCandReady (Inr c)" tid fl "server_hist x"] by auto
  from server_receives [OF assms(2,3) this] show ?thesis ..
qed

text \<open>A sender that is not done has something to gather; a receiver that is not done has something in
  transit or a sender that is not done.\<close>

lemma not_done_gathers: "direction False rd q (map is_end g) \<Longrightarrow> \<exists>c cs. g = c # cs"
  by (cases g) (auto simp: direction_def)

lemma exchange_progress:
  assumes inv: "exchange_inv x" and "\<not> exchange_over x" and ok: "env_succeeds cenv" "env_succeeds senv"
  shows "\<exists>y. exchange_step cenv senv tid x y"
proof -
  from inv obtain p q where
    c: "to_server x = map WOptCand p" "direction (sending_done (client_flags x)) (receiving_done (server_flags x))
          (map is_end p) (map is_end (client_gather x))" and
    s: "from_server x = map WOptMsg q" "set q \<subseteq> insert None (range (Some \<circ> ICE))"
      "direction (sending_done (server_flags x)) (receiving_done (client_flags x)) (map is_end q) (map is_end (server_gather x))"
    and fl: "flags_ok (client_flags x)" "flags_ok (server_flags x)"
    by (auto simp: exchange_inv_def)
  consider "\<not> sending_done (client_flags x)" | "\<not> sending_done (server_flags x)"
    | "\<not> receiving_done (client_flags x)" "sending_done (server_flags x)"
    | "\<not> receiving_done (server_flags x)" "sending_done (client_flags x)"
    using assms(2) fl by (auto simp: exchange_over_def flags_ok_def)
  then show ?thesis
  proof cases
    case 1
    then obtain f where "client_flags x = Some f" by (cases "client_flags x") auto
    with 1 c(2) not_done_gathers client_can_gather [OF ok(1)] show ?thesis by metis
  next
    case 2
    then obtain f where "server_flags x = Some f" by (cases "server_flags x") auto
    with 2 s(3) not_done_gathers server_can_gather [OF ok(2)] show ?thesis by metis
  next
    case 3
    then obtain f where f: "client_flags x = Some f" by (cases "client_flags x") auto
    from 3 s(3) direction_moves obtain m ms where "q = m # ms" by (cases q) fastforce+
    with s(1,2) show ?thesis by (intro client_can_receive [OF ok(1) f, of m "map WOptMsg ms"]) simp_all
  next
    case 4
    then obtain f where f: "server_flags x = Some f" by (cases "server_flags x") auto
    from 4 c(2) direction_moves obtain m ms where "p = m # ms" by (cases p) fastforce+
    with c(1) show ?thesis by (intro server_can_receive [OF ok(2) f, of m "map WOptCand ms"]) simp
  qed
qed

text \<open>From every state of the exchange some sequence of turns ends it.\<close>

lemma exchange_can_end:
  assumes "exchange_inv x" and "env_succeeds cenv" and "env_succeeds senv"
  shows "\<exists>y. (exchange_step cenv senv tid)\<^sup>*\<^sup>* x y \<and> exchange_over y"
  using assms(1)
proof (induction "exchange_work x" arbitrary: x rule: less_induct)
  case less
  show ?case
  proof (cases "exchange_over x")
    case False
    from exchange_progress [OF less.prems False assms(2,3)] obtain y where y: "exchange_step cenv senv tid x y" by blast
    from less.hyps [OF exchange_step_work [OF less.prems y] exchange_inv_step [OF less.prems y]] y show ?thesis
      by (meson converse_rtranclp_into_rtranclp)
  qed blast
qed

lemma exchange_over_empty: "exchange_inv x \<Longrightarrow> exchange_over x \<Longrightarrow> to_server x = [] \<and> from_server x = []
    \<and> client_gather x = [] \<and> server_gather x = []"
  by (auto simp: exchange_inv_def exchange_over_def direction_def)

text \<open>
  C3: The candidate exchange between client and server is free of deadlock and ends cleanly. Let both sides
  run their trickle loops against each other over a transport that keeps the order of the objects, with
  any candidates to gather. In every interleaving of their turns, every object in transit has the type
  that its receiver asks for; as long as one of the sides is in its loop, some turn is possible if the
  crate and the transport do not fail; every turn brings the exchange closer to its end, so there is no
  infinite run; and when both sides have left their loops nothing is left in transit or to gather.
\<close>

theorem exchange_ends_cleanly:
  assumes "reach (\<lambda>x. x = exchange_init ccs scs hc hs) (exchange_step cenv senv tid) x"
    and "env_succeeds cenv" and "env_succeeds senv"
  shows "(\<exists>p q. to_server x = map WOptCand p \<and> from_server x = map WOptMsg q)
    \<and> (\<exists>y. exchange_over y \<and> (exchange_step cenv senv tid)\<^sup>*\<^sup>* x y)
    \<and> (if exchange_over x then to_server x = [] \<and> from_server x = [] \<and> client_gather x = [] \<and> server_gather x = []
       else \<exists>y. exchange_step cenv senv tid x y)
    \<and> (exchange_step cenv senv tid x y \<longrightarrow> exchange_work y < exchange_work x)"
proof -
  from exchange.reach_good [OF assms(1)] have inv: "exchange_inv x" .
  then have "\<exists>p q. to_server x = map WOptCand p \<and> from_server x = map WOptMsg q"
    by (auto simp: exchange_inv_def)
  moreover from exchange_can_end [OF inv assms(2,3), of tid]
  have "\<exists>y. exchange_over y \<and> (exchange_step cenv senv tid)\<^sup>*\<^sup>* x y" by blast
  moreover have "if exchange_over x then to_server x = [] \<and> from_server x = [] \<and> client_gather x = [] \<and> server_gather x = []
       else \<exists>y. exchange_step cenv senv tid x y"
    using exchange_over_empty [OF inv] exchange_progress [OF inv _ assms(2,3), of tid] by simp
  ultimately show ?thesis using exchange_step_work [OF inv] by blast
qed

theorem exchange_ends_cleanly_witness:
  "\<exists>y. exchange_over y \<and> (exchange_step ok_env (ok_env :: (nat, nat, nat, nat, unit, string, unit) server_env) ''peer'')\<^sup>*\<^sup>*
      (exchange_init [7] [3, 4] ([] :: (nat, nat, nat, unit) history) []) y"
proof -
  have "reach (\<lambda>x. x = exchange_init [7] [3, 4] ([] :: (nat, nat, nat, unit) history) [])
      (exchange_step ok_env (ok_env :: (nat, nat, nat, nat, unit, string, unit) server_env) ''peer'')
      (exchange_init [7] [3, 4] [] [])" by (rule reach_init) (rule refl)
  from exchange_ends_cleanly [OF this ok_env_succeeds ok_env_succeeds] show ?thesis by blast
qed

end
