(* ===== verification/Tls_Init.thy ===== *)
theory Tls_Init
  imports Rust_Prelude
begin

text \<open>
  TLS initialisation, \<open>upgrade2webrtc/src/tls.rs\<close>. The file system is a map from paths to contents
  with injected failures; the certificate libraries (\<open>rcgen\<close>, \<open>rustls\<close>, \<open>rustls_pemfile\<close>) are a
  record of functions. The state that is threaded through is the file system.
\<close>

section \<open>The file system\<close>

text \<open>
  \<open>exists_fault\<close> and \<open>open_fault\<close> make a call fail; \<open>write_fault\<close> gives the error of a failing
  \<open>std::fs::write\<close> and what it leaves at the path (it may have created or truncated the file).
\<close>

record fs =
  files :: "string \<rightharpoonup> bytes"
  exists_fault :: "string \<Rightarrow> io_error option"
  open_fault :: "string \<Rightarrow> io_error option"
  write_fault :: "string \<Rightarrow> (io_error \<times> bytes option) option"

definition fs_try_exists :: "string \<Rightarrow> fs \<Rightarrow> io_error + bool" where
  "fs_try_exists p s = (case exists_fault s p of
      Some e \<Rightarrow> Inl e
    | None \<Rightarrow> Inr (files s p \<noteq> None))"

definition fs_open :: "string \<Rightarrow> fs \<Rightarrow> io_error + bytes" where
  "fs_open p s = (case open_fault s p of
      Some e \<Rightarrow> Inl e
    | None \<Rightarrow> (case files s p of None \<Rightarrow> Inl (IoErr NotFound []) | Some b \<Rightarrow> Inr b))"

definition fs_write :: "string \<Rightarrow> bytes \<Rightarrow> fs \<Rightarrow> (io_error, unit) res \<times> fs" where
  "fs_write p content s = (case write_fault s p of
      Some (e, left) \<Rightarrow> (Err e, s\<lparr>files := (files s)(p := left)\<rparr>)
    | None \<Rightarrow> (Ok (), s\<lparr>files := (files s)(p \<mapsto> content)\<rparr>))"

section \<open>Configuration, errors, libraries\<close>

record TlsServerConfig =
  root_cert_chain_path :: string
  parent_key_path :: string
  subject_alt_names :: "string list"
  create_if_missing :: bool

datatype ('rc, 'ru) TlsInitError = Tls_IOError io_error | RCGenError 'rc | RustlsError 'ru

fun tls_init_error_display ::
  "(io_error \<Rightarrow> string) \<Rightarrow> ('rc \<Rightarrow> string) \<Rightarrow> ('ru \<Rightarrow> string) \<Rightarrow> ('rc, 'ru) TlsInitError \<Rightarrow> string" where
  "tls_init_error_display si sc su (Tls_IOError e) = si e"
| "tls_init_error_display si sc su (RCGenError e) = sc e"
| "tls_init_error_display si sc su (RustlsError e) = su e"

text \<open>
  \<open>generate_simple_self_signed\<close> draws a fresh key, so \<open>self_signed\<close> takes the number of the call; it is
  the random source of one start of the program, and another start has another one (\<open>redraw\<close>). A root
  store is the list of the certificates added to it.
\<close>

record ('kp, 'params, 'cert, 'rc, 'ru, 'acc, 'conn) pki =
  pkcs8_private_keys :: "bytes \<Rightarrow> io_error + bytes list"
  pem_certs :: "bytes \<Rightarrow> io_error + bytes list"
  key_from_der :: "bytes \<Rightarrow> 'rc + 'kp"
  from_ca_cert_der :: "bytes \<Rightarrow> 'kp \<Rightarrow> 'rc + 'params"
  from_params :: "'params \<Rightarrow> 'rc + 'cert"
  self_signed :: "nat \<Rightarrow> string list \<Rightarrow> 'rc + 'cert"
  cert_pem :: "'cert \<Rightarrow> 'rc + bytes"
  key_pem :: "'cert \<Rightarrow> bytes"
  der_with_signer :: "'cert \<Rightarrow> 'cert \<Rightarrow> 'rc + bytes"
  cert_der :: "'cert \<Rightarrow> 'rc + bytes"
  private_key_der :: "'cert \<Rightarrow> bytes"
  with_single_cert :: "bytes list \<Rightarrow> bytes \<Rightarrow> 'ru + 'acc"
  root_store_add :: "bytes \<Rightarrow> 'ru + unit"
  with_root_certificates :: "bytes list \<Rightarrow> 'conn"

definition redraw :: "(nat \<Rightarrow> string list \<Rightarrow> 'rc + 'cert) \<Rightarrow> ('kp, 'params, 'cert, 'rc, 'ru, 'acc, 'conn) pki
    \<Rightarrow> ('kp, 'params, 'cert, 'rc, 'ru, 'acc, 'conn) pki" where
  "redraw draw pki = pki\<lparr>self_signed := draw\<rparr>"

abbreviation tls_io :: "'a \<Rightarrow> (io_error + 'b) \<Rightarrow> (('rc, 'ru) TlsInitError, 'b) res \<times> 'a" where
  "tls_io s r \<equiv> (try_map Tls_IOError r, s)"

abbreviation tls_rc :: "'a \<Rightarrow> ('rc + 'b) \<Rightarrow> (('rc, 'ru) TlsInitError, 'b) res \<times> 'a" where
  "tls_rc s r \<equiv> (try_map RCGenError r, s)"

section \<open>The acceptor\<close>

text \<open>The branch for an existing certificate chain.\<close>

definition load_parent ::
  "('kp, 'params, 'cert, 'rc, 'ru, 'acc, 'conn) pki \<Rightarrow> TlsServerConfig \<Rightarrow> fs
    \<Rightarrow> (('rc, 'ru) TlsInitError, 'cert) res \<times> fs" where
  "load_parent pki config s =
     and_then (tls_io s (fs_open (parent_key_path config) s)) (\<lambda>key_file s.
     and_then (tls_io s (pkcs8_private_keys pki key_file)) (\<lambda>keys s.
     case keys of
       [key] \<Rightarrow>
         and_then (tls_rc s (key_from_der pki key)) (\<lambda>parent_key s.
         and_then (tls_io s (fs_open (root_cert_chain_path config) s)) (\<lambda>certs_file s.
         and_then (tls_io s (pem_certs pki certs_file)) (\<lambda>certs s.
         if certs = []
         then (Err (Tls_IOError (IoErr InvalidData
           ''There must be at least one certificate in the root cert chain file'')), s)
         else
           and_then (tls_rc s (from_ca_cert_der pki (last certs) parent_key)) (\<lambda>params s.
           tls_rc s (from_params pki params)))))
     | _ \<Rightarrow> (Err (Tls_IOError (IoErr InvalidData
         ''There must be exactly one private key in the parent key file'')), s)))"

text \<open>The branch that creates the parent certificate and its key and stores them.\<close>

definition create_parent ::
  "('kp, 'params, 'cert, 'rc, 'ru, 'acc, 'conn) pki \<Rightarrow> TlsServerConfig \<Rightarrow> fs
    \<Rightarrow> (('rc, 'ru) TlsInitError, 'cert) res \<times> fs" where
  "create_parent pki config s =
     and_then (tls_rc s (self_signed pki 0 [])) (\<lambda>parent s.
     and_then (tls_rc s (cert_pem pki parent)) (\<lambda>pem s.
     and_then (apfst (map_res Tls_IOError id) (fs_write (root_cert_chain_path config) pem s)) (\<lambda>_ s.
     and_then (apfst (map_res Tls_IOError id)
       (fs_write (parent_key_path config) (key_pem pki parent) s)) (\<lambda>_ s.
     (Ok parent, s)))))"

text \<open>A fresh server certificate signed by the parent, and the acceptor that presents both.\<close>

definition server_acceptor ::
  "('kp, 'params, 'cert, 'rc, 'ru, 'acc, 'conn) pki \<Rightarrow> TlsServerConfig \<Rightarrow> 'cert \<Rightarrow> fs
    \<Rightarrow> (('rc, 'ru) TlsInitError, 'acc) res \<times> fs" where
  "server_acceptor pki config parent_cert s =
     and_then (tls_rc s (self_signed pki 1 (subject_alt_names config))) (\<lambda>server_cert s.
     and_then (tls_rc s (der_with_signer pki server_cert parent_cert)) (\<lambda>leaf s.
     and_then (tls_rc s (cert_der pki parent_cert)) (\<lambda>root s.
     (try_map RustlsError (with_single_cert pki [leaf, root] (private_key_der pki server_cert)), s))))"

definition new_tls_acceptor ::
  "('kp, 'params, 'cert, 'rc, 'ru, 'acc, 'conn) pki \<Rightarrow> TlsServerConfig \<Rightarrow> fs
    \<Rightarrow> (('rc, 'ru) TlsInitError, 'acc) res \<times> fs" where
  "new_tls_acceptor pki config s =
     and_then (tls_io s (fs_try_exists (root_cert_chain_path config) s)) (\<lambda>present s.
     and_then
       (if present then load_parent pki config s
        else if create_if_missing config then create_parent pki config s
        else (Err (Tls_IOError (IoErr NotFound ''Certificate file does not exist'')), s))
     (\<lambda>parent_cert s. server_acceptor pki config parent_cert s))"

section \<open>The connector\<close>

definition new_tls_connector ::
  "('kp, 'params, 'cert, 'rc, 'ru, 'acc, 'conn) pki \<Rightarrow> string option \<Rightarrow> fs
    \<Rightarrow> (('rc, 'ru) TlsInitError, 'conn) res \<times> fs" where
  "new_tls_connector pki root_cert_path s =
     and_then
       (case root_cert_path of
          None \<Rightarrow> (Ok [], s)
        | Some p \<Rightarrow>
            and_then (tls_io s (fs_open p s)) (\<lambda>root_cert_file s.
            and_then (tls_io s (pem_certs pki root_cert_file)) (\<lambda>certs s.
            case certs of
              [root_cert] \<Rightarrow>
                and_then (try_map RustlsError (root_store_add pki root_cert), s) (\<lambda>_ s.
                (Ok [root_cert], s))
            | _ \<Rightarrow> (Err (Tls_IOError (IoErr InvalidData
                ''There must be exactly one certificate in the root cert file'')), s))))
     (\<lambda>root_store s. (Ok (with_root_certificates pki root_store), s))"

section \<open>Lemmas\<close>

lemma load_parent_fs [simp]: "snd (load_parent pki config s) = s"
  unfolding load_parent_def
  by (intro and_then_history [where P = "\<lambda>s'. s' = s"])
    (auto split: list.split intro!: and_then_history [where P = "\<lambda>s'. s' = s"])

lemma new_tls_connector_fs: "snd (new_tls_connector pki path s) = s"
  unfolding new_tls_connector_def
  by (rule and_then_history [where P = "\<lambda>s'. s' = s"])
    (auto split: option.split list.split intro!: and_then_history [where P = "\<lambda>s'. s' = s"])

text \<open>The steps after the parent certificate do not touch the file system.\<close>

lemma server_acceptor_fs [simp]: "snd (server_acceptor pki config parent s) = s"
  unfolding server_acceptor_def
  by (rule and_then_history [where P = "\<lambda>s'. s' = s"], simp)
    (auto intro!: and_then_history [where P = "\<lambda>s'. s' = s"])

lemma and_then_server_acceptor_fs [simp]:
  "snd (and_then r (\<lambda>parent s. server_acceptor pki config parent s)) = snd r"
  by (rule and_then_history [where P = "\<lambda>s'. s' = snd r"]) simp_all

lemma new_tls_acceptor_fs:
  "snd (new_tls_acceptor pki config s) =
     (if fs_try_exists (root_cert_chain_path config) s = Inr False \<and> create_if_missing config
      then snd (create_parent pki config s) else s)"
  by (cases "fs_try_exists (root_cert_chain_path config) s") (auto simp: new_tls_acceptor_def)

lemma fs_write_settled: "settled (fst (apfst (map_res f id) (fs_write p content s)))"
  by (simp add: fs_write_def split: option.split prod.split)

lemma new_tls_acceptor_settled: "settled (fst (new_tls_acceptor pki config s))"
  unfolding new_tls_acceptor_def load_parent_def create_parent_def server_acceptor_def
  by (auto intro!: and_then_settled fs_write_settled split: list.split)

lemma new_tls_connector_settled: "settled (fst (new_tls_connector pki path s))"
  unfolding new_tls_connector_def
  by (auto intro!: and_then_settled split: list.split option.split)

lemma fs_write_Ok [simp]:
  "apfst (map_res f id) (fs_write p content s) = (Ok u, s') \<longleftrightarrow>
     write_fault s p = None \<and> s' = s\<lparr>files := (files s)(p \<mapsto> content)\<rparr>"
  by (auto simp: fs_write_def split: option.splits)

lemma create_parent_Ok:
  assumes "create_parent pki config s = (Ok parent, s')"
  obtains pem where "self_signed pki 0 [] = Inr parent" "cert_pem pki parent = Inr pem"
    "s' = s\<lparr>files := (files s)(root_cert_chain_path config \<mapsto> pem,
        parent_key_path config \<mapsto> key_pem pki parent)\<rparr>"
  using assms by (auto simp: create_parent_def)

section \<open>Properties of the TLS initialisation\<close>

text \<open>
  C19: An existing certificate chain is never overwritten, and without \<open>create_if_missing\<close> nothing
  is ever written: unless the chain file is found to be missing and its creation is allowed, the
  acceptor leaves the file system as it was, whatever its outcome. The connector never writes.
\<close>

theorem tls_writes_only_missing_chain:
  "(snd (new_tls_acceptor pki config s) = s
     \<or> files s (root_cert_chain_path config) = None \<and> create_if_missing config)
   \<and> snd (new_tls_connector pki path s) = s"
  by (auto simp: new_tls_acceptor_fs new_tls_connector_fs fs_try_exists_def split: option.splits)

text \<open>
  Reading back: the stored certificate and key of \<open>c\<close> are one certificate and one key, and give the
  parent certificate \<open>c'\<close>.
\<close>

definition reads_back :: "('kp, 'params, 'cert, 'rc, 'ru, 'acc, 'conn) pki \<Rightarrow> 'cert \<Rightarrow> 'cert \<Rightarrow> bool" where
  "reads_back pki c c' \<longleftrightarrow> (\<exists>pem der key kp params. cert_pem pki c = Inr pem
     \<and> pem_certs pki pem = Inr [der] \<and> pkcs8_private_keys pki (key_pem pki c) = Inr [key]
     \<and> key_from_der pki key = Inr kp \<and> from_ca_cert_der pki der kp = Inr params \<and> from_params pki params = Inr c')"

text \<open>The calls that issue and present a server certificate succeed.\<close>

definition issues :: "('kp, 'params, 'cert, 'rc, 'ru, 'acc, 'conn) pki \<Rightarrow> bool" where
  "issues pki \<longleftrightarrow> (\<forall>n names. \<exists>c. self_signed pki n names = Inr c) \<and> (\<forall>c p. \<exists>d. der_with_signer pki c p = Inr d)
     \<and> (\<forall>c. \<exists>d. cert_der pki c = Inr d) \<and> (\<forall>cs k. \<exists>acc. with_single_cert pki cs k = Inr acc)"

lemma issues_acceptor: "issues pki \<Longrightarrow> \<exists>acc. server_acceptor pki config parent s = (Ok acc, s)"
proof -
  assume i: "issues pki"
  then obtain c where "self_signed pki 1 (subject_alt_names config) = Inr c" unfolding issues_def by blast
  moreover from i obtain d where "der_with_signer pki c parent = Inr d" unfolding issues_def by blast
  moreover from i obtain d' where "cert_der pki parent = Inr d'" unfolding issues_def by blast
  moreover from i obtain acc where "with_single_cert pki [d, d'] (private_key_der pki c) = Inr acc" unfolding issues_def by blast
  ultimately show ?thesis by (simp add: server_acceptor_def)
qed

lemma redraw_same:
  "pkcs8_private_keys (redraw draw pki) = pkcs8_private_keys pki" "pem_certs (redraw draw pki) = pem_certs pki"
  "key_from_der (redraw draw pki) = key_from_der pki" "from_ca_cert_der (redraw draw pki) = from_ca_cert_der pki"
  "from_params (redraw draw pki) = from_params pki"
  by (simp_all add: redraw_def)

lemma load_parent_redraw [simp]: "load_parent (redraw draw pki) config s = load_parent pki config s"
  unfolding load_parent_def redraw_same ..

lemma load_stored:
  assumes "reads_back pki c c'" and "cert_pem pki c = Inr pem"
    and "fs_open (root_cert_chain_path config) s = Inr pem" and "fs_open (parent_key_path config) s = Inr (key_pem pki c)"
  shows "load_parent pki config s = (Ok c', s)"
  using assms by (auto simp: reads_back_def load_parent_def)

text \<open>
  C18: What creation stores is what later starts use. If the acceptor is initialised where the chain file
  is missing, creation is allowed and the paths differ, then a later start, which draws other keys, loads
  the parent certificate that the first one drew and stored, issues its server certificate with it and
  changes no file. Assumed of the libraries: a stored certificate and key can be read back, and issuing
  and presenting a certificate does not fail.
\<close>

theorem tls_create_then_load:
  assumes first: "new_tls_acceptor pki config s = (Ok acc, s')"
    and missing: "files s (root_cert_chain_path config) = None"
    and paths: "parent_key_path config \<noteq> root_cert_chain_path config"
    and faults: "\<forall>p. open_fault s p = None" "\<forall>p. exists_fault s p = None"
    and readback: "\<forall>c pem. cert_pem pki c = Inr pem \<longrightarrow> (\<exists>c'. reads_back pki c c')"
    and issues: "issues (redraw draw pki)"
  shows "\<exists>parent parent' acc'. self_signed pki 0 [] = Inr parent \<and> reads_back pki parent parent'
    \<and> load_parent (redraw draw pki) config s' = (Ok parent', s')
    \<and> new_tls_acceptor (redraw draw pki) config s' = (Ok acc', s')
    \<and> server_acceptor (redraw draw pki) config parent' s' = (Ok acc', s')"
proof -
  from missing faults have ex: "fs_try_exists (root_cert_chain_path config) s = Inr False"
    by (simp add: fs_try_exists_def)
  with first have "create_if_missing config"
    by (cases "create_if_missing config") (auto simp: new_tls_acceptor_def)
  with first ex obtain parent where "create_parent pki config s = (Ok parent, s')"
    using new_tls_acceptor_fs [of pki config s] by (auto simp: new_tls_acceptor_def)
  then obtain pem where drawn: "self_signed pki 0 [] = Inr parent" and pem: "cert_pem pki parent = Inr pem"
    and s': "s' = s\<lparr>files := (files s)(root_cert_chain_path config \<mapsto> pem,
        parent_key_path config \<mapsto> key_pem pki parent)\<rparr>"
    by (rule create_parent_Ok)
  from readback pem obtain parent' where r: "reads_back pki parent parent'" by blast
  have "load_parent pki config s' = (Ok parent', s')"
    by (rule load_stored [OF r pem]) (use s' faults paths in \<open>simp_all add: fs_open_def\<close>)
  moreover have "fs_try_exists (root_cert_chain_path config) s' = Inr True"
    using s' faults by (simp add: fs_try_exists_def)
  ultimately have "new_tls_acceptor (redraw draw pki) config s' = server_acceptor (redraw draw pki) config parent' s'"
    by (simp add: new_tls_acceptor_def)
  with issues_acceptor [OF issues, of config parent' s'] drawn r \<open>load_parent pki config s' = (Ok parent', s')\<close>
  show ?thesis by auto
qed

text \<open>A certificate library in which a certificate is its serial number.\<close>

definition toy_pki :: "(nat, nat, nat, string, string, bytes list, bytes list) pki" where
  "toy_pki = \<lparr>pkcs8_private_keys = (\<lambda>b. Inr [b]), pem_certs = (\<lambda>b. Inr [b]),
     key_from_der = (\<lambda>b. Inr (length b)), from_ca_cert_der = (\<lambda>d k. Inr k), from_params = Inr,
     self_signed = (\<lambda>n names. Inr n), cert_pem = (\<lambda>c. Inr (replicate c 1)),
     key_pem = (\<lambda>c. replicate c 2), der_with_signer = (\<lambda>c p. Inr [3]), cert_der = (\<lambda>c. Inr [4]),
     private_key_der = (\<lambda>c. [5]), with_single_cert = (\<lambda>cs k. Inr cs), root_store_add = (\<lambda>c. Inr ()),
     with_root_certificates = (\<lambda>cs. cs)\<rparr>"

definition empty_fs :: fs where
  "empty_fs = \<lparr>files = Map.empty, exists_fault = (\<lambda>p. None), open_fault = (\<lambda>p. None),
     write_fault = (\<lambda>p. None)\<rparr>"

definition demo_tls_config :: TlsServerConfig where
  "demo_tls_config = \<lparr>root_cert_chain_path = ''ca.pem'', parent_key_path = ''ca.key'',
     subject_alt_names = [''localhost''], create_if_missing = True\<rparr>"

lemma toy_acceptor: "fst (server_acceptor toy_pki demo_tls_config c s) = Ok [[3], [4]]"
  by (simp add: server_acceptor_def toy_pki_def)

lemma toy_create:
  "new_tls_acceptor toy_pki demo_tls_config empty_fs = (Ok [[3], [4]],
     empty_fs\<lparr>files := [''ca.pem'' \<mapsto> [], ''ca.key'' \<mapsto> []]\<rparr>)"
  by (simp add: new_tls_acceptor_def create_parent_def server_acceptor_def fs_try_exists_def fs_write_def
      toy_pki_def demo_tls_config_def empty_fs_def)

text \<open>In the witness the second start draws certificates that differ from the stored one.\<close>

theorem tls_create_then_load_witness:
  "\<exists>acc'. new_tls_acceptor (redraw (\<lambda>n names. Inr (n + 5)) toy_pki) demo_tls_config
      (empty_fs\<lparr>files := [''ca.pem'' \<mapsto> [], ''ca.key'' \<mapsto> []]\<rparr>)
    = (Ok acc', empty_fs\<lparr>files := [''ca.pem'' \<mapsto> [], ''ca.key'' \<mapsto> []]\<rparr>)"
proof -
  have "issues (redraw (\<lambda>n names. Inr (n + 5)) toy_pki)" by (simp add: issues_def redraw_def toy_pki_def)
  moreover have "\<forall>c pem. cert_pem toy_pki c = Inr pem \<longrightarrow> (\<exists>c'. reads_back toy_pki c c')"
    by (simp add: reads_back_def toy_pki_def)
  ultimately show ?thesis
    using tls_create_then_load [OF toy_create, of "\<lambda>n names. Inr (n + 5)"]
    by (auto simp: demo_tls_config_def empty_fs_def)
qed

section \<open>A half-created authority\<close>

text \<open>
  What happens after a start: the faults of the file system may change, and the program is started again
  with the same configuration and other random draws. Nobody else touches the files.
\<close>

inductive restarted :: "('kp, 'params, 'cert, 'rc, 'ru, 'acc, 'conn) pki \<Rightarrow> TlsServerConfig \<Rightarrow> fs \<Rightarrow> fs \<Rightarrow> bool"
  for pki config where
  faults_change: "files t = files s \<Longrightarrow> restarted pki config s t"
| start_again: "restarted pki config s (snd (new_tls_acceptor (redraw draw pki) config s))"

text \<open>A chain without a readable key.\<close>

definition keyless :: "('kp, 'params, 'cert, 'rc, 'ru, 'acc, 'conn) pki \<Rightarrow> TlsServerConfig \<Rightarrow> fs \<Rightarrow> bool" where
  "keyless pki config s \<longleftrightarrow> files s (root_cert_chain_path config) \<noteq> None
     \<and> (\<forall>b key. files s (parent_key_path config) = Some b \<longrightarrow> pkcs8_private_keys pki b \<noteq> Inr [key])"

lemma load_parent_keyless: "keyless pki config s \<Longrightarrow> \<exists>e. fst (load_parent pki config s) = Err e"
  by (cases "fs_open (parent_key_path config) s")
    (auto simp: load_parent_def keyless_def fs_open_def and_then_def try_map_def split: option.splits sum.splits list.splits)

lemma keyless_fails:
  assumes "keyless pki config s"
  shows "\<exists>e. new_tls_acceptor (redraw draw pki) config s = (Err e, s)"
proof (cases "fs_try_exists (root_cert_chain_path config) s")
  case (Inr present)
  with assms have "present" by (auto simp: fs_try_exists_def keyless_def split: option.splits)
  moreover obtain e where "load_parent pki config s = (Err e, s)"
    using load_parent_keyless [OF assms] load_parent_fs [of pki config s] by (metis prod.collapse)
  ultimately show ?thesis using Inr by (simp add: new_tls_acceptor_def)
qed (simp add: new_tls_acceptor_def)

interpretation broken: inductive_system "keyless pki config" "restarted pki config" "keyless pki config" for pki config
proof unfold_locales
  fix s t assume k: "keyless pki config s" and "restarted pki config s t"
  from this(2) show "keyless pki config t"
  proof cases
    case faults_change
    with k show ?thesis by (simp add: keyless_def)
  next
    case (start_again draw)
    with k keyless_fails [OF k, of draw] show ?thesis by auto
  qed
qed

text \<open>
  C39: Creation is not atomic. If the chain file has been written and writing the key file fails, leaving
  no file or one that does not hold exactly one key (an empty or cut-off file), then the initialisation
  fails, and every later start with the same configuration fails as well and changes no file, whatever
  keys it draws and whatever else goes wrong or right with the file system in between: the chain exists,
  so it is loaded and not created again, even though \<open>create_if_missing\<close> is set.
\<close>

theorem tls_half_created_stays_broken:
  assumes "files s (root_cert_chain_path config) = None" and "exists_fault s (root_cert_chain_path config) = None"
    and "parent_key_path config \<noteq> root_cert_chain_path config"
    and "create_if_missing config" and "self_signed pki 0 [] = Inr parent" and "cert_pem pki parent = Inr pem"
    and "write_fault s (root_cert_chain_path config) = None"
    and "write_fault s (parent_key_path config) = Some (e, rest)"
    and "\<And>b key. rest = Some b \<Longrightarrow> pkcs8_private_keys pki b \<noteq> Inr [key]"
    and "reach (\<lambda>t. t = snd (new_tls_acceptor pki config s)) (restarted pki config) t"
  shows "fst (new_tls_acceptor pki config s) = Err (Tls_IOError e)
    \<and> (\<exists>e'. new_tls_acceptor (redraw draw pki) config t = (Err e', t))"
proof -
  have "create_parent pki config s = (Err (Tls_IOError e),
      s\<lparr>files := (files s)(root_cert_chain_path config \<mapsto> pem, parent_key_path config := rest)\<rparr>)"
    using assms(5-8) by (simp add: create_parent_def fs_write_def)
  then have first: "new_tls_acceptor pki config s = (Err (Tls_IOError e),
      s\<lparr>files := (files s)(root_cert_chain_path config \<mapsto> pem, parent_key_path config := rest)\<rparr>)"
    using assms(1,2,4) by (simp add: new_tls_acceptor_def fs_try_exists_def)
  then have "keyless pki config (snd (new_tls_acceptor pki config s))"
    using assms(3,9) by (simp add: keyless_def)
  from assms(10) have "reach (keyless pki config) (restarted pki config) t"
  proof (induction rule: reach.induct)
    case (reach_init t)
    with \<open>keyless pki config (snd (new_tls_acceptor pki config s))\<close> show ?case by (simp add: reach.reach_init)
  qed (rule reach.reach_step)
  from broken.reach_good [OF this] keyless_fails first show ?thesis by simp
qed

text \<open>In the witness the failed write leaves an empty file, which holds no key.\<close>

theorem tls_half_created_stays_broken_witness:
  "\<exists>e'. new_tls_acceptor (redraw (\<lambda>n names. Inr (n + 5)) (toy_pki\<lparr>pkcs8_private_keys := \<lambda>b. if b = [] then Inr [] else Inr [b]\<rparr>))
      demo_tls_config (empty_fs\<lparr>files := [''ca.pem'' \<mapsto> [], ''ca.key'' \<mapsto> []]\<rparr>)
    = (Err e', empty_fs\<lparr>files := [''ca.pem'' \<mapsto> [], ''ca.key'' \<mapsto> []]\<rparr>)"
proof -
  let ?pki = "toy_pki\<lparr>pkcs8_private_keys := \<lambda>b. if b = [] then Inr [] else Inr [b]\<rparr>"
  let ?s = "empty_fs\<lparr>write_fault := [''ca.key'' \<mapsto> (IoErr (OtherKind 28) ''no space left'', Some [])]\<rparr>"
  let ?t = "empty_fs\<lparr>files := [''ca.pem'' \<mapsto> [], ''ca.key'' \<mapsto> []]\<rparr>"
  have "restarted ?pki demo_tls_config (snd (new_tls_acceptor ?pki demo_tls_config ?s)) ?t"
    by (rule faults_change) (simp add: new_tls_acceptor_def create_parent_def fs_try_exists_def fs_write_def
        toy_pki_def demo_tls_config_def empty_fs_def)
  with refl have r: "reach (\<lambda>t. t = snd (new_tls_acceptor ?pki demo_tls_config ?s)) (restarted ?pki demo_tls_config) ?t"
    by (rule reach_step [OF reach_init])
  show ?thesis
    by (rule conjunct2 [OF tls_half_created_stays_broken [OF _ _ _ _ _ _ _ _ _ r]])
      (auto simp: toy_pki_def demo_tls_config_def empty_fs_def)
qed

text \<open>
  A chain file that exists is used only with exactly one private key, and a root file only with
  exactly one certificate: otherwise initialisation fails with \<open>InvalidData\<close>, before any key or
  certificate is used.
\<close>

theorem tls_rejects_ambiguous_files:
  assumes "fs_try_exists (root_cert_chain_path config) s = Inr True"
    and "fs_open (parent_key_path config) s = Inr kf" and "pkcs8_private_keys pki kf = Inr keys"
    and "length keys \<noteq> 1"
    and "fs_open p s = Inr rf" and "pem_certs pki rf = Inr certs" and "length certs \<noteq> 1"
  shows "fst (new_tls_acceptor pki config s) = Err (Tls_IOError (IoErr InvalidData
      ''There must be exactly one private key in the parent key file''))
    \<and> fst (new_tls_connector pki (Some p) s) = Err (Tls_IOError (IoErr InvalidData
      ''There must be exactly one certificate in the root cert file''))"
  using assms
  by (auto simp: new_tls_acceptor_def load_parent_def new_tls_connector_def split: list.splits)

theorem tls_rejects_ambiguous_files_witness:
  "fst (new_tls_acceptor (toy_pki\<lparr>pkcs8_private_keys := (\<lambda>b. Inr []), pem_certs := (\<lambda>b. Inr [b, b])\<rparr>) demo_tls_config
      (empty_fs\<lparr>files := [''ca.pem'' \<mapsto> [], ''ca.key'' \<mapsto> []]\<rparr>))
     = Err (Tls_IOError (IoErr InvalidData ''There must be exactly one private key in the parent key file''))
   \<and> fst (new_tls_connector (toy_pki\<lparr>pkcs8_private_keys := (\<lambda>b. Inr []), pem_certs := (\<lambda>b. Inr [b, b])\<rparr>) (Some ''ca.pem'')
      (empty_fs\<lparr>files := [''ca.pem'' \<mapsto> [], ''ca.key'' \<mapsto> []]\<rparr>))
     = Err (Tls_IOError (IoErr InvalidData ''There must be exactly one certificate in the root cert file''))"
  using tls_rejects_ambiguous_files [of demo_tls_config
      "empty_fs\<lparr>files := [''ca.pem'' \<mapsto> [], ''ca.key'' \<mapsto> []]\<rparr>" "[]"
      "toy_pki\<lparr>pkcs8_private_keys := (\<lambda>b. Inr []), pem_certs := (\<lambda>b. Inr [b, b])\<rparr>" "[]" "''ca.pem''"
      "[]" "[[], []]"]
  by (simp add: fs_try_exists_def fs_open_def empty_fs_def demo_tls_config_def)

end
