(* ===== verification/Tunnel_Config.thy ===== *)
theory Tunnel_Config
  imports Rtc_Types Tls_Init
begin

text \<open>
  The configuration data of \<open>webrtc-tunnel/src/main.rs\<close>, reading a configuration file, the errors of
  the two commands, the table of channels that \<open>webrtc-tunnel/src/server.rs\<close> builds, and the loop that
  both sides use to push a message through a call that may accept only part of it.
\<close>

definition UDP_PACKET_SIZE :: nat where
  "UDP_PACKET_SIZE = 512"

datatype Quality = Quality_UDP | Quality_TCP | ReliableUnordered

fun quality_into :: "Quality \<Rightarrow> RTCDataChannelInit" where
  "quality_into Quality_UDP = UDP_DATA_CHANNEL"
| "quality_into Quality_TCP = TCP_DATA_CHANNEL"
| "quality_into ReliableUnordered = RELIABLE_UNORDERED_DATA_CHANNEL"

text \<open>
  A configured channel: port (or address), remapped port, quality. Ports are \<open>NonZeroU16\<close>; the
  deserialiser rejects zero, which \<open>channel_ok\<close> states.
\<close>

datatype Channel =
    Channel_UDP u16 "u16 option" "Quality option"
  | Channel_TCP u16 "u16 option" "Quality option"
  | Channel_LocalSocket string "string option" "Quality option"

fun channel_ok :: "Channel \<Rightarrow> bool" where
  "channel_ok (Channel_UDP port remap q) \<longleftrightarrow> port \<noteq> 0 \<and> remap \<noteq> Some 0"
| "channel_ok (Channel_TCP port remap q) \<longleftrightarrow> port \<noteq> 0 \<and> remap \<noteq> Some 0"
| "channel_ok (Channel_LocalSocket addr remap q) \<longleftrightarrow> True"

text \<open>\<open>unwrap_or\<close> and \<open>to_string\<close> of a port.\<close>

definition unwrap_or :: "'a option \<Rightarrow> 'a \<Rightarrow> 'a" where
  "unwrap_or x d = (case x of None \<Rightarrow> d | Some y \<Rightarrow> y)"

definition port_to_string :: "u16 \<Rightarrow> string" where
  "port_to_string p = show_nat (unat p)"

lemma port_to_string_eq_iff [simp]: "port_to_string p = port_to_string q \<longleftrightarrow> p = q"
  by (simp add: port_to_string_def word_unat_eq_iff)

lemma unwrap_or_simps [simp]: "unwrap_or None d = d" "unwrap_or (Some y) d = y"
  by (simp_all add: unwrap_or_def)

section \<open>Reading the configuration\<close>

text \<open>Well-formed UTF-8, which \<open>std::fs::read_to_string\<close> requires of a file.\<close>

definition continuation :: "byte \<Rightarrow> bool" where
  "continuation b \<longleftrightarrow> 0x80 \<le> b \<and> b \<le> 0xBF"

fun utf8_valid :: "bytes \<Rightarrow> bool" where
  "utf8_valid [] = True"
| "utf8_valid (b0 # bs) =
     (if b0 \<le> 0x7F then utf8_valid bs
      else case bs of
        [] \<Rightarrow> False
      | b1 # bs1 \<Rightarrow>
          if 0xC2 \<le> b0 \<and> b0 \<le> 0xDF then continuation b1 \<and> utf8_valid bs1
          else (case bs1 of
            [] \<Rightarrow> False
          | b2 # bs2 \<Rightarrow>
              if 0xE0 \<le> b0 \<and> b0 \<le> 0xEF
              then continuation b1 \<and> continuation b2 \<and> (b0 = 0xE0 \<longrightarrow> 0xA0 \<le> b1)
                \<and> (b0 = 0xED \<longrightarrow> b1 \<le> 0x9F) \<and> utf8_valid bs2
              else (case bs2 of
                [] \<Rightarrow> False
              | b3 # bs3 \<Rightarrow>
                  0xF0 \<le> b0 \<and> b0 \<le> 0xF4 \<and> continuation b1 \<and> continuation b2 \<and> continuation b3
                  \<and> (b0 = 0xF0 \<longrightarrow> 0x90 \<le> b1) \<and> (b0 = 0xF4 \<longrightarrow> b1 \<le> 0x8F) \<and> utf8_valid bs3)))"

definition read_to_string :: "string \<Rightarrow> fs \<Rightarrow> io_error + string" where
  "read_to_string p s = (case fs_open p s of
      Inl e \<Rightarrow> Inl e
    | Inr b \<Rightarrow> if utf8_valid b then Inr (map (char_of \<circ> unat) b)
        else Inl (IoErr InvalidData ''stream did not contain valid UTF-8''))"

text \<open>The errors that the commands return: what \<open>?\<close> converts into \<open>anyhow::Error\<close>.\<close>

datatype 'werr task_error = Task_Io io_error | Task_WebRTC 'werr

datatype 'werr exit_error = Exit_Task "'werr task_error" | Exit_Join

datatype ('te, 'rc, 'ru, 'ce, 'werr) anyhow_error =
    Any_Io io_error
  | Any_Toml 'te
  | Any_Msg string
  | Any_InvalidDnsName
  | Any_Tls "('rc, 'ru) TlsInitError"
  | Any_Client 'ce
  | Any_WebRTC 'werr
  | Any_Exit "'werr exit_error"

text \<open>\<open>unwrap\<close>, \<open>expect\<close>, and \<open>match\<close> with a panicking error arm.\<close>

definition unwrapped :: "('e, 'a) res \<Rightarrow> ('f, 'a) res" where
  "unwrapped r = (case r of Ok x \<Rightarrow> Ok x | Err e \<Rightarrow> Panicked | Panicked \<Rightarrow> Panicked | Blocked \<Rightarrow> Blocked)"

lemma unwrapped_simps [simp]:
  "unwrapped (Ok x) = Ok x" "unwrapped (Err e) = Panicked" "unwrapped Panicked = Panicked" "unwrapped Blocked = Blocked"
  by (simp_all add: unwrapped_def)

lemma unwrapped_Ok_iff [simp]: "unwrapped r = Ok x \<longleftrightarrow> r = Ok x"
  by (cases r) simp_all

lemma unwrapped_not_Err [simp]: "unwrapped r \<noteq> Err e"
  by (cases r) simp_all

definition or_panic :: "'act \<Rightarrow> ('act list \<Rightarrow> ('e, 'a) res) \<Rightarrow> 'act list \<Rightarrow> ('f, 'a) res \<times> 'act list" where
  "or_panic act call h = (unwrapped (call h), h @ [act])"

lemma or_panic_Ok [simp]: "or_panic act call h = (Ok x, h') \<longleftrightarrow> call h = Ok x \<and> h' = h @ [act]"
  by (auto simp: or_panic_def)

lemma snd_or_panic [simp]: "snd (or_panic act call h) = h @ [act]"
  by (simp add: or_panic_def)

section \<open>The table of allowed channels\<close>

text \<open>
  The contract of the hash maps the tunnel uses, and what it implies for a table that is filled by a
  sequence of insertions.
\<close>

locale keyed_table =
  fixes empty_table :: "'m" and insert_entry :: "'m \<Rightarrow> 'k \<Rightarrow> 'v \<Rightarrow> 'm" and get_entry :: "'m \<Rightarrow> 'k \<Rightarrow> 'v option"
  assumes get_empty: "get_entry empty_table k = None"
    and get_insert: "get_entry (insert_entry m k v) k' = (if k' = k then Some v else get_entry m k')"
begin

lemma get_inserts:
  "get_entry (foldl (\<lambda>m (k, v). insert_entry m k v) m kvs) k
    = (case map_of (rev kvs) k of None \<Rightarrow> get_entry m k | Some v \<Rightarrow> Some v)"
  by (induction kvs arbitrary: m) (auto simp: get_insert map_add_def split: option.splits prod.splits)

end

definition hash_insert :: "('k \<rightharpoonup> 'v) \<Rightarrow> 'k \<Rightarrow> 'v \<Rightarrow> ('k \<rightharpoonup> 'v)" where
  "hash_insert m k v = m(k \<mapsto> v)"

interpretation hash_map: keyed_table Map.empty hash_insert "\<lambda>m k. m k"
  by unfold_locales (auto simp: hash_insert_def)

fun channel_key :: "Channel \<Rightarrow> string" where
  "channel_key (Channel_UDP port remap q) = port_to_string (unwrap_or remap port)"
| "channel_key (Channel_TCP port remap q) = port_to_string (unwrap_or remap port)"
| "channel_key (Channel_LocalSocket addr remap q) = unwrap_or remap addr"

definition allowed_channels :: "Channel list \<Rightarrow> (string \<rightharpoonup> Channel)" where
  "allowed_channels channels =
     foldl (\<lambda>m (k, c). hash_insert m k c) Map.empty (map (\<lambda>c. (channel_key c, c)) channels)"

lemma allowed_channels_map_of:
  "allowed_channels channels k = map_of (rev (map (\<lambda>c. (channel_key c, c)) channels)) k"
  by (simp add: allowed_channels_def hash_map.get_inserts split: option.splits)

lemma allowed_channels_Nil [simp]: "allowed_channels [] = Map.empty"
  by (simp add: allowed_channels_def)

lemma allowed_channels_snoc:
  "allowed_channels (cs @ [c]) k = (if k = channel_key c then Some c else allowed_channels cs k)"
  by (simp add: allowed_channels_map_of)

lemma allowed_channels_member:
  "allowed_channels channels k = Some c \<Longrightarrow> c \<in> set channels \<and> channel_key c = k"
  by (auto simp: allowed_channels_map_of dest: map_of_SomeD)

lemma last_with_key_snoc:
  "(\<exists>pre post. xs @ [x] = pre @ c # post \<and> f c = k \<and> k \<notin> f ` set post) \<longleftrightarrow>
     c = x \<and> f c = k \<or> f x \<noteq> k \<and> (\<exists>pre post. xs = pre @ c # post \<and> f c = k \<and> k \<notin> f ` set post)"
  (is "?l \<longleftrightarrow> ?now \<or> ?later")
proof
  assume ?l
  then obtain pre post where "xs @ [x] = pre @ c # post" "f c = k" "k \<notin> f ` set post" by blast
  then show "?now \<or> ?later" by (cases post rule: rev_cases) auto
next
  assume "?now \<or> ?later"
  then show ?l
  proof
    assume ?now
    then have "xs @ [x] = xs @ c # [] \<and> f c = k \<and> k \<notin> f ` set []" by auto
    then show ?l by blast
  next
    assume ?later
    then obtain pre post where "xs = pre @ c # post" "f c = k" "k \<notin> f ` set post" "f x \<noteq> k" by blast
    then have "xs @ [x] = pre @ c # (post @ [x]) \<and> f c = k \<and> k \<notin> f ` set (post @ [x])" by auto
    then show ?l by blast
  qed
qed

text \<open>
  C27: The table of allowed channels holds, for every key, the last configured channel with that key:
  looking up a protocol gives a channel exactly if that channel is configured under the key and no
  later channel has the key, and gives nothing exactly if no configured channel has it.
\<close>

theorem allowed_channels_lookup:
  "(allowed_channels channels k = Some c \<longleftrightarrow>
      (\<exists>pre post. channels = pre @ c # post \<and> channel_key c = k \<and> k \<notin> channel_key ` set post))
   \<and> (allowed_channels channels k = None \<longleftrightarrow> k \<notin> channel_key ` set channels)"
proof (induction channels rule: rev_induct)
  case (snoc x xs)
  then show ?case by (auto simp: allowed_channels_snoc last_with_key_snoc)
qed simp

text \<open>
  The key of a channel does not say whether it is a UDP or a TCP channel: of two channels that are
  published on one port the later one replaces the earlier one, so a client of the first is served
  with the protocol of the second.
\<close>

theorem udp_and_tcp_share_a_key:
  "allowed_channels (pre @ [Channel_UDP p None q, Channel_TCP p' (Some p) q']) (port_to_string p)
     = Some (Channel_TCP p' (Some p) q')
   \<and> Channel_UDP p None q \<notin> ran (allowed_channels (pre @ [Channel_UDP p None q, Channel_TCP p' (Some p) q']))"
  using allowed_channels_snoc [of "pre @ [Channel_UDP p None q]" "Channel_TCP p' (Some p) q'"]
  by (auto simp: ran_def dest: allowed_channels_member split: if_splits)

section \<open>Pushing a message\<close>

text \<open>
  \<open>while sent_n < len { sent_n += send(&msg[start..]) }\<close>, over the results of the sends: a count of
  bytes taken or an error, on which the callers panic. \<open>start\<close> is the index the slice starts at, as
  a function of \<open>sent_n\<close>; a start past the end panics. The second component lists the bytes that the
  sends took.
\<close>

fun send_loop :: "(nat \<Rightarrow> nat) \<Rightarrow> 'a list \<Rightarrow> nat \<Rightarrow> ('e + nat) list \<Rightarrow> ('e, unit) res \<times> 'a list list" where
  "send_loop start msg sent_n [] = (if sent_n < length msg then (Blocked, []) else (Ok (), []))"
| "send_loop start msg sent_n (r # rs) =
     (if sent_n < length msg
      then if length msg < start sent_n then (Panicked, [])
      else (case r of
          Inl e \<Rightarrow> (Panicked, [])
        | Inr n \<Rightarrow> apsnd (Cons (take n (drop (start sent_n) msg))) (send_loop start msg (sent_n + n) rs))
      else (Ok (), []))"

text \<open>
  A send takes at most what it is given, as the documentation of the calls says. This is said of the sends
  that the loop makes; results that follow them in the script are not constrained.
\<close>

fun honest_sends :: "(nat \<Rightarrow> nat) \<Rightarrow> 'a list \<Rightarrow> nat \<Rightarrow> ('e + nat) list \<Rightarrow> bool" where
  "honest_sends start msg sent_n [] = True"
| "honest_sends start msg sent_n (Inl e # rs) = True"
| "honest_sends start msg sent_n (Inr n # rs) =
     (sent_n < length msg \<longrightarrow> n \<le> length msg - start sent_n \<and> honest_sends start msg (sent_n + n) rs)"

text \<open>What the sends of a script take together, and sends that do not fail and take at least one byte.\<close>

definition taken :: "('e + nat) list \<Rightarrow> nat" where
  "taken rs = sum_list (map (case_sum (\<lambda>_. 0) id) rs)"

lemma taken_simps [simp]: "taken [] = 0" "taken (Inr n # rs) = n + taken rs" "taken (Inl e # rs) = taken rs"
  by (simp_all add: taken_def)

definition positive_sends :: "('e + nat) list \<Rightarrow> bool" where
  "positive_sends rs \<longleftrightarrow> (\<forall>r \<in> set rs. \<exists>n > 0. r = Inr n)"

text \<open>Sends of at least one byte: as many of them as a message has bytes are enough for it.\<close>

lemma positive_sends_enough: "positive_sends rs \<Longrightarrow> length rs \<le> taken rs"
  unfolding positive_sends_def by (induction rs) auto

lemma send_loop_complete:
  assumes "honest_sends (\<lambda>n. n) msg sent_n rs" and "sent_n \<le> length msg"
    and "fst (send_loop (\<lambda>n. n) msg sent_n rs) = Ok u"
  shows "concat (snd (send_loop (\<lambda>n. n) msg sent_n rs)) = drop sent_n msg"
  using assms
proof (induction rs arbitrary: sent_n)
  case Nil
  then show ?case by (auto split: if_splits)
next
  case (Cons r rs)
  show ?case
  proof (cases "sent_n < length msg")
    case True
    with Cons.prems obtain n where r: "r = Inr n" and n: "n \<le> length msg - sent_n" by (cases r) auto
    from True n have "sent_n + n \<le> length msg" by linarith
    with Cons.IH [of "sent_n + n"] Cons.prems r True
    have "concat (snd (send_loop (\<lambda>n. n) msg (sent_n + n) rs)) = drop n (drop sent_n msg)"
      by (simp add: add.commute)
    with r True show ?thesis by (simp del: drop_drop)
  next
    case False
    with Cons.prems(2) show ?thesis by simp
  qed
qed

lemma send_loop_whole:
  "send_loop (\<lambda>n. n) msg 0 rs = (Ok u, chunks) \<Longrightarrow> honest_sends (\<lambda>n. n) msg 0 rs \<Longrightarrow> concat chunks = msg"
  using send_loop_complete [of msg 0 rs u] by simp

lemma send_loop_no_error: "fst (send_loop start msg sent_n rs) \<noteq> Err e"
proof (induction rs arbitrary: sent_n)
  case (Cons x rs)
  then show ?case by (cases x) auto
qed auto

lemma send_loop_terminates:
  assumes "positive_sends rs" and "length msg \<le> sent_n + taken rs"
  shows "fst (send_loop (\<lambda>n. n) msg sent_n rs) = Ok ()
    \<and> length (snd (send_loop (\<lambda>n. n) msg sent_n rs)) \<le> length msg - sent_n"
  using assms
proof (induction rs arbitrary: sent_n)
  case (Cons r rs)
  then obtain n where r: "r = Inr n" "0 < n" by (auto simp: positive_sends_def)
  have "positive_sends rs" using Cons.prems(1) by (simp add: positive_sends_def)
  moreover have "length msg \<le> (sent_n + n) + taken rs" using Cons.prems(2) r by simp
  ultimately have "fst (send_loop (\<lambda>n. n) msg (sent_n + n) rs) = Ok ()
    \<and> length (snd (send_loop (\<lambda>n. n) msg (sent_n + n) rs)) \<le> length msg - (sent_n + n)" by (rule Cons.IH)
  with r show ?case by auto
qed simp

text \<open>A message is delivered in at most as many sends as it has bytes.\<close>

lemma send_loop_delivers:
  assumes "honest_sends (\<lambda>n. n) msg 0 rs" and "positive_sends rs" and "length msg \<le> taken rs"
  shows "\<exists>chunks. send_loop (\<lambda>n. n) msg 0 rs = (Ok (), chunks) \<and> concat chunks = msg \<and> length chunks \<le> length msg"
proof -
  obtain r chunks where c: "send_loop (\<lambda>n. n) msg 0 rs = (r, chunks)" by (cases "send_loop (\<lambda>n. n) msg 0 rs")
  with send_loop_terminates [OF assms(2), of msg 0] assms(3) have "r = Ok ()" "length chunks \<le> length msg" by auto
  with c send_loop_whole [of msg rs "()" chunks] assms(1) show ?thesis by auto
qed

text \<open>A loop that always offers the empty rest of the message never finishes and sends nothing.\<close>

lemma send_loop_stuck:
  assumes "0 < length msg" and "honest_sends (\<lambda>_. length msg) msg 0 rs"
  shows "fst (send_loop (\<lambda>_. length msg) msg 0 rs) \<noteq> Ok u
    \<and> concat (snd (send_loop (\<lambda>_. length msg) msg 0 rs)) = []"
  using assms
proof (induction rs)
  case (Cons r rs)
  then show ?case by (cases r) auto
qed simp

end
