(* ===== verification/Tunnel_Listeners.thy ===== *)
theory Tunnel_Listeners
  imports Tunnel_Config "HOL-Library.Multiset"
begin

text \<open>
  The tasks of the tunnel's client, \<open>webrtc-tunnel/src/client.rs\<close>: a listener per configured channel,
  which opens a data channel for every local client it sees, and the sessions that move bytes between a
  local client and its data channel. The tasks share the counter that numbers the data channels. Their
  interleaving is a step relation whose steps are the parts of a task between two awaits; the access to the
  shared counter is a step of its own.
\<close>

section \<open>The shared state\<close>

datatype SocketAddr = SocketAddr string u16

datatype client_action =
    BindUdp u16
  | BindTcp u16
  | ConnectUdp SocketAddr
  | OpenChannel string RTCDataChannelInit
  | Enqueue nat bytes
  | SpawnSession nat
  | ForgetSender SocketAddr
  | LogOpenFailed nat

record client_world =
  channel_counter :: nat
  actions :: "client_action list"

definition act :: "client_action \<Rightarrow> client_world \<Rightarrow> client_world" where
  "act a w = w\<lparr>actions := actions w @ [a]\<rparr>"

text \<open>An awaited call whose error \<open>?\<close> returns from the task.\<close>

definition call ::
  "client_action \<Rightarrow> ('e \<Rightarrow> 'f) \<Rightarrow> (client_world \<Rightarrow> ('e, 'a) res) \<Rightarrow> client_world \<Rightarrow> ('f, 'a) res \<times> client_world"
  where
  "call a f c w = (map_res f id (c w), act a w)"

text \<open>
  \<open>fetch_add(1)\<close> on an \<open>AtomicUsize\<close> reads and advances the counter at once and wraps around. It is a step
  of its own in the tasks below; a load and a store would be two, with steps of other tasks in between.
\<close>

definition fetch_add :: "target \<Rightarrow> client_world \<Rightarrow> nat \<times> client_world" where
  "fetch_add tgt w =
     (channel_counter w, w\<lparr>channel_counter := (channel_counter w + 1) mod 2 ^ ptr_bits tgt\<rparr>)"

text \<open>
  The calls into the system and the \<open>webrtc\<close> crate. \<open>recv_buf\<close> is what \<open>recv_buf_from\<close> does with the
  buffer and a datagram; \<open>sender_send\<close> the \<open>send\<close> on a session's queue, which fails once the session
  has ended; \<open>wait_open\<close> the wait for \<open>on_open\<close>.
\<close>

record 'werr client_io =
  bind_udp :: "u16 \<Rightarrow> client_world \<Rightarrow> (io_error, unit) res"
  bind_tcp :: "u16 \<Rightarrow> client_world \<Rightarrow> (io_error, unit) res"
  connect_udp :: "SocketAddr \<Rightarrow> client_world \<Rightarrow> (io_error, unit) res"
  open_channel :: "string \<Rightarrow> RTCDataChannelInit \<Rightarrow> client_world \<Rightarrow> ('werr, unit) res"
  recv_buf :: "bytes \<Rightarrow> bytes \<Rightarrow> nat \<times> bytes"
  sender_send :: "nat \<Rightarrow> bytes \<Rightarrow> client_world \<Rightarrow> (unit, unit) res"
  wait_open :: "nat \<Rightarrow> client_world \<Rightarrow> (unit, unit) res"

definition channel_config :: "Quality \<Rightarrow> u16 \<Rightarrow> RTCDataChannelInit" where
  "channel_config quality port = (quality_into quality)\<lparr>protocol := Some (port_to_string port)\<rparr>"

text \<open>\<open>try_send\<close> on a bounded queue.\<close>

definition try_send :: "nat \<Rightarrow> 'a list \<Rightarrow> 'a \<Rightarrow> 'a list option" where
  "try_send cap queue x = (if length queue < cap then Some (queue @ [x]) else None)"

section \<open>The UDP listener\<close>

record udp_state =
  ubuf :: bytes
  senders :: "SocketAddr \<rightharpoonup> nat"

datatype udp_event = Datagram "io_error + bytes \<times> SocketAddr" | UdpEnd

text \<open>
  Where a listener is while it handles a datagram: the await of the send to a known client's session; for
  a new client the awaits of \<open>bind\<close>, \<open>connect\<close> and \<open>create_data_channel\<close>, and the access to the counter.
\<close>

datatype udp_point =
    UdpSending nat SocketAddr bytes
  | UdpBinding SocketAddr bytes
  | UdpConnecting SocketAddr bytes
  | UdpNumbering SocketAddr bytes
  | UdpCreating nat SocketAddr bytes

text \<open>A turn of \<open>select!\<close> up to the first await of the handler, or the end of the loop.\<close>

definition udp_turn ::
  "'werr client_io \<Rightarrow> udp_event \<Rightarrow> udp_state \<Rightarrow> ('werr task_error, unit + udp_point \<times> udp_state) res" where
  "udp_turn io ev st =
     (case ev of
        UdpEnd \<Rightarrow> Ok (Inl ())
      | Datagram (Inl e) \<Rightarrow> Err (Task_Io e)
      | Datagram (Inr (datagram, addr)) \<Rightarrow>
          (case recv_buf io (ubuf st) datagram of (n, buf') \<Rightarrow>
           case split_at n buf' of
             None \<Rightarrow> Panicked
           | Some (buf, _) \<Rightarrow>
               Ok (Inr (case senders st addr of
                   Some channel_idx \<Rightarrow> UdpSending channel_idx addr buf
                 | None \<Rightarrow> UdpBinding addr buf, st\<lparr>ubuf := buf'\<rparr>))))"

text \<open>
  One step of the handler: the awaited call returns, and the code runs up to the next await, or back to
  \<open>select!\<close> (\<open>None\<close>).
\<close>

fun udp_advance ::
  "'werr client_io \<Rightarrow> target \<Rightarrow> u16 \<Rightarrow> u16 \<Rightarrow> Quality \<Rightarrow> udp_point \<Rightarrow> udp_state \<Rightarrow> client_world
    \<Rightarrow> ('werr task_error, udp_point option \<times> udp_state) res \<times> client_world" where
  "udp_advance io tgt port listener_port quality (UdpSending channel_idx addr buf) st w =
     (case sender_send io channel_idx buf w of
        Ok _ \<Rightarrow> (Ok (None, st), act (Enqueue channel_idx buf) w)
      | Err _ \<Rightarrow> (Ok (None, st\<lparr>senders := (senders st)(addr := None)\<rparr>), act (ForgetSender addr) w)
      | Panicked \<Rightarrow> (Panicked, w)
      | Blocked \<Rightarrow> (Blocked, w))"
| "udp_advance io tgt port listener_port quality (UdpBinding addr buf) st w =
     and_then (call (BindUdp listener_port) Task_Io (bind_udp io listener_port) w) (\<lambda>_ w.
     (Ok (Some (UdpConnecting addr buf), st), w))"
| "udp_advance io tgt port listener_port quality (UdpConnecting addr buf) st w =
     and_then (call (ConnectUdp addr) Task_Io (connect_udp io addr) w) (\<lambda>_ w.
     (Ok (Some (UdpNumbering addr buf), st), w))"
| "udp_advance io tgt port listener_port quality (UdpNumbering addr buf) st w =
     (case fetch_add tgt w of (channel_idx, w) \<Rightarrow> (Ok (Some (UdpCreating channel_idx addr buf), st), w))"
| "udp_advance io tgt port listener_port quality (UdpCreating channel_idx addr buf) st w =
     and_then (call (OpenChannel (show_nat channel_idx) (channel_config quality port)) Task_WebRTC
       (open_channel io (show_nat channel_idx) (channel_config quality port)) w) (\<lambda>_ w.
     case try_send 3 [] buf of
       None \<Rightarrow> (Panicked, w)
     | Some queue \<Rightarrow> (Ok (None, st\<lparr>senders := hash_insert (senders st) addr channel_idx\<rparr>),
         act (SpawnSession channel_idx) (act (Enqueue channel_idx buf) w)))"

section \<open>The TCP listener\<close>

datatype tcp_event = Accepted "io_error + unit" | TcpEnd

text \<open>The access to the counter, and the awaits of \<open>create_data_channel\<close> and of \<open>on_open\<close>.\<close>

datatype tcp_point = TcpNumbering | TcpCreating nat | TcpOpening nat

definition tcp_turn :: "tcp_event \<Rightarrow> ('werr task_error, unit + tcp_point) res" where
  "tcp_turn ev =
     (case ev of
        TcpEnd \<Rightarrow> Ok (Inl ())
      | Accepted (Inl e) \<Rightarrow> Err (Task_Io e)
      | Accepted (Inr _) \<Rightarrow> Ok (Inr TcpNumbering))"

fun tcp_advance ::
  "'werr client_io \<Rightarrow> target \<Rightarrow> u16 \<Rightarrow> Quality \<Rightarrow> tcp_point \<Rightarrow> client_world
    \<Rightarrow> ('werr task_error, tcp_point option) res \<times> client_world" where
  "tcp_advance io tgt port quality TcpNumbering w =
     (case fetch_add tgt w of (channel_idx, w) \<Rightarrow> (Ok (Some (TcpCreating channel_idx)), w))"
| "tcp_advance io tgt port quality (TcpCreating channel_idx) w =
     and_then (call (OpenChannel (show_nat channel_idx) (channel_config quality port)) Task_WebRTC
       (open_channel io (show_nat channel_idx) (channel_config quality port)) w) (\<lambda>_ w.
     (Ok (Some (TcpOpening channel_idx)), w))"
| "tcp_advance io tgt port quality (TcpOpening channel_idx) w =
     (case wait_open io channel_idx w of
        Ok _ \<Rightarrow> (Ok None, act (SpawnSession channel_idx) w)
      | Err _ \<Rightarrow> (Ok None, act (LogOpenFailed channel_idx) w)
      | Panicked \<Rightarrow> (Panicked, w)
      | Blocked \<Rightarrow> (Blocked, w))"

section \<open>The tasks and their interleaving\<close>

text \<open>
  A task is a listener, in its \<open>select!\<close> or at a point of its handler, or it has ended with a result
  (\<open>TaskEnded\<close>, a panic included), or it is stuck in a call that does not return.
\<close>

datatype 'werr task =
    UdpTask u16 u16 Quality udp_state "udp_point option"
  | TcpTask u16 Quality "tcp_point option"
  | TaskEnded "('werr task_error, unit) res"

text \<open>The start of a task: \<open>quality.expect\<close>, the bind of the listener, \<open>todo!()\<close> for local sockets.\<close>

fun start_task :: "'werr client_io \<Rightarrow> Channel \<Rightarrow> client_world \<Rightarrow> ('werr task_error, 'werr task) res \<times> client_world"
  where
  "start_task io (Channel_UDP port remap None) w = (Panicked, w)"
| "start_task io (Channel_UDP port remap (Some quality)) w =
     and_then (call (BindUdp (unwrap_or remap port)) Task_Io (bind_udp io (unwrap_or remap port)) w) (\<lambda>_ w.
     (Ok (UdpTask port (unwrap_or remap port) quality
       \<lparr>ubuf = replicate UDP_PACKET_SIZE 0, senders = Map.empty\<rparr> None), w))"
| "start_task io (Channel_TCP port remap None) w = (Panicked, w)"
| "start_task io (Channel_TCP port remap (Some quality)) w =
     and_then (call (BindTcp (unwrap_or remap port)) Task_Io (bind_tcp io (unwrap_or remap port)) w) (\<lambda>_ w.
     (Ok (TcpTask port quality None), w))"
| "start_task io (Channel_LocalSocket addr remap q) w = (Panicked, w)"

text \<open>The result of a step of a task as the state of the task: going on, or ended.\<close>

definition task_after :: "('werr task_error, unit + 'werr task) res \<Rightarrow> 'werr task" where
  "task_after r = (case r of
      Ok (Inr t) \<Rightarrow> t
    | Ok (Inl u) \<Rightarrow> TaskEnded (Ok ())
    | Err e \<Rightarrow> TaskEnded (Err e)
    | Panicked \<Rightarrow> TaskEnded Panicked
    | Blocked \<Rightarrow> TaskEnded Blocked)"

text \<open>An event in \<open>select!\<close>, or the return of the call that the handler awaits.\<close>

datatype task_event = UdpEvent udp_event | TcpEvent tcp_event | Proceed

fun task_step ::
  "'werr client_io \<Rightarrow> target \<Rightarrow> task_event \<Rightarrow> 'werr task \<Rightarrow> client_world \<Rightarrow> ('werr task \<times> client_world) option"
  where
  "task_step io tgt (UdpEvent ev) (UdpTask port lp quality st None) w =
     Some (task_after (map_res id (map_sum id (\<lambda>(pt, st). UdpTask port lp quality st (Some pt))) (udp_turn io ev st)), w)"
| "task_step io tgt Proceed (UdpTask port lp quality st (Some pt)) w =
     (case udp_advance io tgt port lp quality pt st w of
        (r, w) \<Rightarrow> Some (task_after (map_res id (\<lambda>(pt, st). Inr (UdpTask port lp quality st pt)) r), w))"
| "task_step io tgt (TcpEvent ev) (TcpTask port quality None) w =
     Some (task_after (map_res id (map_sum id (\<lambda>pt. TcpTask port quality (Some pt))) (tcp_turn ev)), w)"
| "task_step io tgt Proceed (TcpTask port quality (Some pt)) w =
     (case tcp_advance io tgt port quality pt w of
        (r, w) \<Rightarrow> Some (task_after (map_res id (\<lambda>pt. Inr (TcpTask port quality pt)) r), w))"
| "task_step io tgt _ _ w = None"

text \<open>
  The client's tasks: those not yet started, and the others. A step starts a task or lets one handle an
  event, in any order.
\<close>

datatype 'werr slot = Unstarted Channel | Started Channel "'werr task"

type_synonym 'werr client_state = "'werr slot list \<times> client_world"

definition client_init :: "Channel list \<Rightarrow> 'werr client_state" where
  "client_init channels = (map Unstarted channels, \<lparr>channel_counter = 0, actions = []\<rparr>)"

inductive client_step :: "'werr client_io \<Rightarrow> target \<Rightarrow> 'werr client_state \<Rightarrow> 'werr client_state \<Rightarrow> bool"
  for io tgt where
  client_start: "i < length ts \<Longrightarrow> ts ! i = Unstarted c \<Longrightarrow> start_task io c w = (r, w')
    \<Longrightarrow> client_step io tgt (ts, w) (ts[i := Started c (task_after (map_res id Inr r))], w')"
| client_event: "i < length ts \<Longrightarrow> ts ! i = Started c t \<Longrightarrow> task_step io tgt ev t w = Some (t', w')
    \<Longrightarrow> client_step io tgt (ts, w) (ts[i := Started c t'], w')"

inductive_cases client_stepE: "client_step io tgt s s'"

section \<open>Sessions\<close>

text \<open>
  What the \<open>select!\<close> of a session takes, with the results of the sends that follow: a message of the
  listener or bytes of the client's stream, which go to the data channel through the loop of sends, or a
  message of the data channel, which goes to the client with one call.
\<close>

datatype 'werr udp_input =
    FromListener "bytes option" "('werr + nat) list"
  | UdpFromChannel "bytes option" "(io_error, nat) res"

datatype 'werr tcp_input =
    FromStream "io_error + bytes" "('werr + nat) list"
  | TcpFromChannel "bytes option" "(io_error, unit) res"

datatype session_output = ToChannel bytes | ToClient bytes

fun udp_client_session ::
  "'werr udp_input list \<Rightarrow> session_output list \<Rightarrow> ('werr, unit) res \<times> session_output list" where
  "udp_client_session [] h = (Blocked, h)"
| "udp_client_session (FromListener None rs # evs) h = (Ok (), h)"
| "udp_client_session (FromListener (Some bytes) rs # evs) h =
     (case send_loop (\<lambda>sent_n. sent_n) bytes 0 rs of (r, chunks) \<Rightarrow>
      and_then (r, h @ map ToChannel chunks) (\<lambda>_ h. udp_client_session evs h))"
| "udp_client_session (UdpFromChannel None r # evs) h = (Ok (), h)"
| "udp_client_session (UdpFromChannel (Some bytes) r # evs) h =
     and_then (unwrapped r, h @ [ToClient bytes]) (\<lambda>_ h. udp_client_session evs h)"

text \<open>In the session of a TCP client the loop of sends slices the message from \<open>n\<close>, its length, on.\<close>

fun tcp_client_session ::
  "'werr tcp_input list \<Rightarrow> session_output list \<Rightarrow> ('werr, unit) res \<times> session_output list" where
  "tcp_client_session [] h = (Blocked, h)"
| "tcp_client_session (FromStream (Inl e) rs # evs) h = (Panicked, h)"
| "tcp_client_session (FromStream (Inr available) rs # evs) h =
     (let bytes = take 2048 available; n = length bytes in
      case send_loop (\<lambda>sent_n. n) bytes 0 rs of (r, chunks) \<Rightarrow>
      and_then (r, h @ map ToChannel chunks) (\<lambda>_ h. tcp_client_session evs h))"
| "tcp_client_session (TcpFromChannel None r # evs) h = (Ok (), h)"
| "tcp_client_session (TcpFromChannel (Some bytes) r # evs) h =
     and_then (unwrapped r, h @ [ToClient bytes]) (\<lambda>_ h. tcp_client_session evs h)"

section \<open>The opened data channels\<close>

fun opened_by :: "client_action \<Rightarrow> (string \<times> RTCDataChannelInit) option" where
  "opened_by (OpenChannel label config) = Some (label, config)"
| "opened_by _ = None"

definition opened :: "client_world \<Rightarrow> (string \<times> RTCDataChannelInit) list" where
  "opened w = List.map_filter opened_by (actions w)"

lemma opened_act [simp]:
  "opened (act a w) = opened w @ (case opened_by a of None \<Rightarrow> [] | Some x \<Rightarrow> [x])"
  "channel_counter (act a w) = channel_counter w" "actions (act a w) = actions w @ [a]"
  by (simp_all add: opened_def act_def List.map_filter_def split: option.split)

lemma opened_counter [simp]: "opened (w\<lparr>channel_counter := k\<rparr>) = opened w"
  by (simp add: opened_def)

text \<open>
  A number is given out when it is drawn from the counter. A task holds it until it has opened its data
  channel with it, so the numbers given out are the labels of the opened channels and the numbers held.
\<close>

fun held_by :: "'werr task \<Rightarrow> nat list" where
  "held_by (UdpTask port lp quality st (Some (UdpCreating channel_idx addr buf))) = [channel_idx]"
| "held_by (TcpTask port quality (Some (TcpCreating channel_idx))) = [channel_idx]"
| "held_by _ = []"

definition given_out :: "client_world \<Rightarrow> nat list \<Rightarrow> string multiset" where
  "given_out w held = mset (map fst (opened w)) + mset (map show_nat held)"

text \<open>What a step does to them: nothing, or it draws the number of the counter and increments it.\<close>

definition draws :: "target \<Rightarrow> client_world \<Rightarrow> nat list \<Rightarrow> client_world \<Rightarrow> nat list \<Rightarrow> bool" where
  "draws tgt w held w' held' \<longleftrightarrow>
     (channel_counter w' = channel_counter w \<and> given_out w' held' = given_out w held)
     \<or> (channel_counter w' = (channel_counter w + 1) mod 2 ^ ptr_bits tgt
        \<and> given_out w' held' = add_mset (show_nat (channel_counter w)) (given_out w held))"

lemmas listener_splits = res.splits prod.splits option.splits sum.splits udp_event.splits tcp_event.splits if_splits

lemma start_task_opens:
  "opened (snd (start_task io c w)) = opened w \<and> channel_counter (snd (start_task io c w)) = channel_counter w"
  by (cases "(io, c, w)" rule: start_task.cases) (auto simp: call_def and_then_def split: res.splits)

text \<open>The data channels that a step opens: none, or one with the configuration of its listener.\<close>

lemma udp_advance_opens:
  "set (opened (snd (udp_advance io tgt port lp quality pt st w)))
    \<subseteq> set (opened w) \<union> {x. snd x = channel_config quality port}"
  by (cases "(io, tgt, port, lp, quality, pt, st, w)" rule: udp_advance.cases)
    (auto simp: call_def and_then_def fetch_add_def try_send_def split: listener_splits)

lemma tcp_advance_opens:
  "set (opened (snd (tcp_advance io tgt port quality pt w)))
    \<subseteq> set (opened w) \<union> {x. snd x = channel_config quality port}"
  by (cases "(io, tgt, port, quality, pt, w)" rule: tcp_advance.cases)
    (auto simp: call_def and_then_def fetch_add_def split: listener_splits)

section \<open>Invariants of the tasks\<close>

definition extends :: "client_world \<Rightarrow> client_world \<Rightarrow> bool" where
  "extends w w' \<longleftrightarrow> (\<exists>new. actions w' = actions w @ new)"

lemma extends_refl [simp]: "extends w w"
  by (simp add: extends_def)

lemma extends_act [simp]: "extends w w' \<Longrightarrow> extends w (act a w')"
  by (auto simp: extends_def)

lemma extends_counter [simp]: "extends w (w'\<lparr>channel_counter := k\<rparr>) = extends w w'"
  by (simp add: extends_def)

lemma extends_call: "extends w w' \<Longrightarrow> extends w (snd (call a f c w'))"
  by (simp add: call_def)

lemma udp_advance_extends: "extends w (snd (udp_advance io tgt port lp quality pt st w))"
  by (cases "(io, tgt, port, lp, quality, pt, st, w)" rule: udp_advance.cases)
    (auto simp: fetch_add_def split: option.split res.split intro!: and_then_history [where P = "extends w"] extends_call)

lemma tcp_advance_extends: "extends w (snd (tcp_advance io tgt port quality pt w))"
  by (cases "(io, tgt, port, quality, pt, w)" rule: tcp_advance.cases)
    (auto simp: fetch_add_def split: res.split intro!: and_then_history [where P = "extends w"] extends_call)

lemma start_task_extends: "extends w (snd (start_task io c w))"
  by (cases "(io, c, w)" rule: start_task.cases)
    (auto intro!: and_then_history [where P = "extends w"] extends_call)

lemma task_stepE:
  assumes "task_step io tgt ev t w = Some (t', w')"
  obtains (UdpTurn) uev port lp quality st where "ev = UdpEvent uev" "t = UdpTask port lp quality st None" "w' = w"
      "t' = task_after (map_res id (map_sum id (\<lambda>(pt, st). UdpTask port lp quality st (Some pt))) (udp_turn io uev st))"
  | (UdpAdvance) port lp quality st pt r where "ev = Proceed" "t = UdpTask port lp quality st (Some pt)"
      "udp_advance io tgt port lp quality pt st w = (r, w')"
      "t' = task_after (map_res id (\<lambda>(pt, st). Inr (UdpTask port lp quality st pt)) r)"
  | (TcpTurn) tev port quality where "ev = TcpEvent tev" "t = TcpTask port quality None" "w' = w"
      "t' = task_after (map_res id (map_sum id (\<lambda>pt. TcpTask port quality (Some pt))) (tcp_turn tev))"
  | (TcpAdvance) port quality pt r where "ev = Proceed" "t = TcpTask port quality (Some pt)"
      "tcp_advance io tgt port quality pt w = (r, w')"
      "t' = task_after (map_res id (\<lambda>pt. Inr (TcpTask port quality pt)) r)"
  using assms by (cases "(io, tgt, ev, t, w)" rule: task_step.cases) (auto split: prod.splits)

lemma task_step_extends: "task_step io tgt ev t w = Some (t', w') \<Longrightarrow> extends w w'"
  by (erule task_stepE) (metis udp_advance_extends tcp_advance_extends extends_refl snd_conv)+

text \<open>What holds of a task after a step, by the outcome of the step.\<close>

lemma task_after_cases:
  assumes "\<And>r. P (TaskEnded r)" and "\<And>t. r = Ok (Inr t) \<Longrightarrow> P t"
  shows "P (task_after r)"
proof (cases r)
  case (Ok y)
  with assms show ?thesis by (cases y) (simp_all add: task_after_def)
qed (use assms in \<open>simp_all add: task_after_def\<close>)

lemma task_after_turn:
  assumes "\<And>r. P (TaskEnded r)" and "\<And>x. r = Ok (Inr x) \<Longrightarrow> P (f x)"
  shows "P (task_after (map_res id (map_sum id f) r))"
proof (rule task_after_cases [where P = P, OF assms(1)])
  fix t assume "map_res id (map_sum id f) r = Ok (Inr t)"
  then obtain y where "r = Ok y" "map_sum id f y = Inr t" by (cases r) auto
  with assms(2) show "P t" by (cases y) auto
qed

lemma task_after_advance:
  assumes "\<And>r. P (TaskEnded r)" and "\<And>x. r = Ok x \<Longrightarrow> P (f x)"
  shows "P (task_after (map_res id (\<lambda>x. Inr (f x)) r))"
  by (rule task_after_cases [where P = P, OF assms(1)]) (use assms(2) in \<open>auto simp: map_res_Ok_iff\<close>)

lemma task_after_udp_advance:
  assumes "\<And>r. P (TaskEnded r)" and "\<And>pt st. r = Ok (pt, st) \<Longrightarrow> P (f pt st)"
  shows "P (task_after (map_res id (\<lambda>(pt, st). Inr (f pt st)) r))"
  by (rule task_after_cases [where P = P, OF assms(1)]) (use assms(2) in \<open>auto simp: map_res_Ok_iff\<close>)

fun slot_channel :: "'werr slot \<Rightarrow> Channel" where
  "slot_channel (Unstarted c) = c"
| "slot_channel (Started c t) = c"

fun slot_ok :: "(Channel \<Rightarrow> 'werr task \<Rightarrow> bool) \<Rightarrow> 'werr slot \<Rightarrow> bool" where
  "slot_ok P (Unstarted c) \<longleftrightarrow> True"
| "slot_ok P (Started c t) \<longleftrightarrow> P c t"

definition tasks_inv ::
  "(Channel \<Rightarrow> 'werr task \<Rightarrow> client_world \<Rightarrow> bool) \<Rightarrow> (client_world \<Rightarrow> bool) \<Rightarrow> Channel list \<Rightarrow> 'werr client_state \<Rightarrow> bool"
  where
  "tasks_inv P Q channels s \<longleftrightarrow> Q (snd s) \<and> map slot_channel (fst s) = channels
     \<and> (\<forall>sl \<in> set (fst s). slot_ok (\<lambda>c t. P c t (snd s)) sl)"

lemma slots_update: "\<forall>sl \<in> set ts. R sl \<Longrightarrow> R x \<Longrightarrow> \<forall>sl \<in> set (ts[i := x]). R sl"
  using set_update_subset_insert [of ts i x] by blast

lemma slot_channels_update:
  "i < length ts \<Longrightarrow> slot_channel (ts ! i) = slot_channel x \<Longrightarrow> map slot_channel (ts[i := x]) = map slot_channel ts"
  by (metis list_update_id map_update nth_map)

text \<open>
  The contract of an invariant of the tasks: \<open>Q\<close> holds of the shared state, \<open>P\<close> of every running task;
  the start of a task and its steps keep both, and what the other tasks do to the shared state keeps \<open>P\<close>.
\<close>

locale task_invariant =
  fixes io :: "'werr client_io" and tgt :: target and channels :: "Channel list"
    and P :: "Channel \<Rightarrow> 'werr task \<Rightarrow> client_world \<Rightarrow> bool" and Q :: "client_world \<Rightarrow> bool"
  assumes initially: "Q \<lparr>channel_counter = 0, actions = []\<rparr>"
    and start: "Q w \<Longrightarrow> c \<in> set channels \<Longrightarrow> start_task io c w = (r, w')
      \<Longrightarrow> Q w' \<and> P c (task_after (map_res id Inr r)) w'"
    and event: "Q w \<Longrightarrow> P c t w \<Longrightarrow> c \<in> set channels \<Longrightarrow> task_step io tgt ev t w = Some (t', w')
      \<Longrightarrow> Q w' \<and> P c t' w'"
    and stable: "P c t w \<Longrightarrow> extends w w' \<Longrightarrow> P c t w'"
begin

lemma slots_stable:
  "\<forall>sl \<in> set ts. slot_ok (\<lambda>c t. P c t w) sl \<Longrightarrow> extends w w' \<Longrightarrow> \<forall>sl \<in> set ts. slot_ok (\<lambda>c t. P c t w') sl"
proof
  fix sl assume "\<forall>sl \<in> set ts. slot_ok (\<lambda>c t. P c t w) sl" "extends w w'" "sl \<in> set ts"
  then show "slot_ok (\<lambda>c t. P c t w') sl" using stable by (cases sl) force+
qed

lemma tasks_inv_update:
  assumes "map slot_channel ts = channels" and "i < length ts" and "slot_channel (ts ! i) = c"
    and "\<forall>sl \<in> set ts. slot_ok (\<lambda>c t. P c t w) sl" and "Q w \<and> P c t w"
  shows "tasks_inv P Q channels (ts[i := Started c t], w)"
  using assms slots_update [OF assms(4), of "Started c t" i] slot_channels_update [OF assms(2), of "Started c t"]
  by (simp add: tasks_inv_def)

lemma tasks_step:
  assumes inv: "tasks_inv P Q channels s" and step: "client_step io tgt s s'"
  shows "tasks_inv P Q channels s'"
  using step
proof (rule client_stepE)
  fix i ts c w r w'
  assume s: "s = (ts, w)" "s' = (ts[i := Started c (task_after (map_res id Inr r))], w')"
    and i: "i < length ts" "ts ! i = Unstarted c" and r: "start_task io c w = (r, w')"
  have c: "c \<in> set channels" using inv i by (auto simp: s tasks_inv_def) (metis imageI nth_mem slot_channel.simps(1))
  have "extends w w'" using start_task_extends [of w io c] r by simp
  then have "\<forall>sl \<in> set ts. slot_ok (\<lambda>c t. P c t w') sl" using inv slots_stable [of ts w w'] by (simp add: s tasks_inv_def)
  moreover have "Q w' \<and> P c (task_after (map_res id Inr r)) w'"
    by (rule start [OF _ c r]) (use inv in \<open>simp add: s tasks_inv_def\<close>)
  ultimately show ?thesis unfolding s(2) using inv i by (intro tasks_inv_update) (simp_all add: s tasks_inv_def)
next
  fix i ts c t ev w t' w'
  assume s: "s = (ts, w)" "s' = (ts[i := Started c t'], w')"
    and i: "i < length ts" "ts ! i = Started c t" and st: "task_step io tgt ev t w = Some (t', w')"
  have c: "c \<in> set channels" using inv i by (auto simp: s tasks_inv_def) (metis imageI nth_mem slot_channel.simps(2))
  have "slot_ok (\<lambda>c t. P c t w) (ts ! i)" using inv nth_mem [OF i(1)] by (simp add: tasks_inv_def s(1))
  then have "slot_ok (\<lambda>c t. P c t w) (Started c t)" by (simp only: i(2))
  then have "Q w' \<and> P c t' w'" by (intro event [OF _ _ c st]) (use inv in \<open>simp_all add: s tasks_inv_def\<close>)
  moreover have "\<forall>sl \<in> set ts. slot_ok (\<lambda>c t. P c t w') sl"
    using inv slots_stable [OF _ task_step_extends [OF st], of ts] by (simp add: s tasks_inv_def)
  ultimately show ?thesis unfolding s(2) using inv i by (intro tasks_inv_update) (simp_all add: s tasks_inv_def)
qed

end

sublocale task_invariant \<subseteq> inductive_system "\<lambda>s. s = client_init channels" "client_step io tgt" "tasks_inv P Q channels"
proof unfold_locales
  show "tasks_inv P Q channels s" if "s = client_init channels" for s
    using that by (simp add: tasks_inv_def client_init_def initially comp_def)
qed (rule tasks_step)

section \<open>Labels\<close>

text \<open>A running task belongs to its channel.\<close>

fun task_of :: "Channel \<Rightarrow> 'werr task \<Rightarrow> bool" where
  "task_of c (UdpTask port lp quality st pt) \<longleftrightarrow> (\<exists>r. c = Channel_UDP port r (Some quality) \<and> lp = unwrap_or r port)"
| "task_of c (TcpTask port quality pt) \<longleftrightarrow> (\<exists>r. c = Channel_TCP port r (Some quality))"
| "task_of c (TaskEnded r) \<longleftrightarrow> True"

text \<open>The configurations that the client may open data channels with.\<close>

definition configured :: "Channel list \<Rightarrow> RTCDataChannelInit set" where
  "configured channels = {channel_config quality port | quality port r.
     Channel_UDP port r (Some quality) \<in> set channels \<or> Channel_TCP port r (Some quality) \<in> set channels}"

lemma configuredI:
  "Channel_UDP port r (Some quality) \<in> set channels \<Longrightarrow> channel_config quality port \<in> configured channels"
  "Channel_TCP port r (Some quality) \<in> set channels \<Longrightarrow> channel_config quality port \<in> configured channels"
  by (auto simp: configured_def)

definition configs_ok :: "Channel list \<Rightarrow> client_world \<Rightarrow> bool" where
  "configs_ok channels w \<longleftrightarrow> snd ` set (opened w) \<subseteq> configured channels"

lemma configs_ok_mono:
  assumes "configs_ok channels w" and "set (opened w') \<subseteq> set (opened w) \<union> {x. snd x = config}"
    and "config \<in> configured channels"
  shows "configs_ok channels w'"
  using assms unfolding configs_ok_def by fastforce

lemma task_of_start: "task_of c (task_after (map_res id Inr (fst (start_task io c w))))"
  by (cases "(io, c, w)" rule: start_task.cases)
    (auto simp: call_def and_then_def task_after_def split: res.splits)

lemma configs_event:
  assumes "configs_ok channels w" and "task_of c t" and "c \<in> set channels"
    and "task_step io tgt ev t w = Some (t', w')"
  shows "configs_ok channels w' \<and> task_of c t'"
  using assms(4)
proof (cases rule: task_stepE)
  case (UdpTurn uev port lp quality st)
  moreover have "task_of c t'" unfolding UdpTurn(4) by (rule task_after_turn) (use assms(2) UdpTurn(2) in auto)
  ultimately show ?thesis using assms(1) by simp
next
  case (UdpAdvance port lp quality st pt r)
  with assms(2,3) have "channel_config quality port \<in> configured channels" by (auto intro: configuredI)
  with udp_advance_opens [of io tgt port lp quality pt st w] UdpAdvance(3) have "configs_ok channels w'"
    using configs_ok_mono [OF assms(1)] by simp
  moreover have "task_of c t'" unfolding UdpAdvance(4) by (rule task_after_udp_advance) (use assms(2) UdpAdvance(2) in auto)
  ultimately show ?thesis ..
next
  case (TcpTurn tev port quality)
  moreover have "task_of c t'" unfolding TcpTurn(4) by (rule task_after_turn) (use assms(2) TcpTurn(2) in auto)
  ultimately show ?thesis using assms(1) by simp
next
  case (TcpAdvance port quality pt r)
  with assms(2,3) have "channel_config quality port \<in> configured channels" by (auto intro: configuredI)
  with tcp_advance_opens [of io tgt port quality pt w] TcpAdvance(3) have "configs_ok channels w'"
    using configs_ok_mono [OF assms(1)] by simp
  moreover have "task_of c t'" unfolding TcpAdvance(4) by (rule task_after_advance) (use assms(2) TcpAdvance(2) in auto)
  ultimately show ?thesis ..
qed

interpretation configs: task_invariant io tgt channels "\<lambda>c t w. task_of c t" "configs_ok channels"
  for io tgt channels
proof unfold_locales
  show "configs_ok channels \<lparr>channel_counter = 0, actions = []\<rparr>"
    by (simp add: configs_ok_def opened_def List.map_filter_def)
next
  fix w c r w'
  assume "configs_ok channels w" "start_task io c w = (r, w')"
  then show "configs_ok channels w' \<and> task_of c (task_after (map_res id Inr r))"
    using task_of_start [of c io w] start_task_opens [of io c w] by (simp add: configs_ok_def)
qed (auto dest: configs_event)

subsection \<open>The numbers\<close>

lemma task_step_draws:
  assumes "task_step io tgt ev t w = Some (t', w')"
  shows "draws tgt w (held_by t) w' (held_by t')"
  using assms
proof (cases rule: task_stepE)
  case (UdpTurn uev port lp quality st)
  have "held_by t' = []" unfolding UdpTurn(4)
    by (rule task_after_turn) (auto simp: udp_turn_def split: listener_splits)
  with UdpTurn show ?thesis by (simp add: draws_def)
next
  case (UdpAdvance port lp quality st pt r)
  then show ?thesis
    by (cases "(io, tgt, port, lp, quality, pt, st, w)" rule: udp_advance.cases)
      (auto simp: call_def and_then_def fetch_add_def try_send_def task_after_def draws_def given_out_def split: listener_splits)
next
  case (TcpTurn tev port quality)
  have "held_by t' = []" unfolding TcpTurn(4)
    by (rule task_after_turn) (auto simp: tcp_turn_def split: listener_splits)
  with TcpTurn show ?thesis by (simp add: draws_def)
next
  case (TcpAdvance port quality pt r)
  then show ?thesis
    by (cases "(io, tgt, port, quality, pt, w)" rule: tcp_advance.cases)
      (auto simp: call_def and_then_def fetch_add_def task_after_def draws_def given_out_def split: listener_splits)
qed

fun slot_held :: "'werr slot \<Rightarrow> nat list" where
  "slot_held (Unstarted c) = []"
| "slot_held (Started c t) = held_by t"

definition held :: "'werr slot list \<Rightarrow> nat list" where
  "held ts = concat (map slot_held ts)"

lemma held_length: "length (held ts) \<le> length ts"
proof (induction ts)
  case (Cons sl ts)
  have "length (held_by t) \<le> 1" for t :: "'a task" by (cases t rule: held_by.cases) simp_all
  then have "length (slot_held sl) \<le> 1" by (cases sl) simp_all
  with Cons show ?case by (simp add: held_def)
qed (simp add: held_def)

lemma held_update:
  assumes "i < length ts"
  shows "mset (held (ts[i := x])) + mset (slot_held (ts ! i)) = mset (held ts) + mset (slot_held x)"
proof -
  have "mset (held ts) = mset (held (take i ts)) + mset (slot_held (ts ! i)) + mset (held (drop (Suc i) ts))"
    by (subst id_take_nth_drop [OF assms]) (simp add: held_def)
  moreover have "mset (held (ts[i := x])) = mset (held (take i ts)) + mset (slot_held x) + mset (held (drop (Suc i) ts))"
    using assms by (simp add: upd_conv_take_nth_drop held_def)
  ultimately show ?thesis by simp
qed

text \<open>The numbers given out by all tasks together are those that the counter has gone through.\<close>

definition numbered :: "target \<Rightarrow> 'werr client_state \<Rightarrow> bool" where
  "numbered tgt s \<longleftrightarrow> (\<exists>k. channel_counter (snd s) = k mod 2 ^ ptr_bits tgt
     \<and> given_out (snd s) (held (fst s)) = mset (map (\<lambda>i. show_nat (i mod 2 ^ ptr_bits tgt)) [0..<k]))"

lemma draws_slot:
  assumes "i < length ts" and "draws tgt w (slot_held (ts ! i)) w' (slot_held x)"
  shows "draws tgt w (held ts) w' (held (ts[i := x]))"
proof -
  let ?f = "\<lambda>xs. image_mset show_nat (mset xs)"
  have "?f (held (ts[i := x])) + ?f (slot_held (ts ! i)) = ?f (held ts) + ?f (slot_held x)"
    using arg_cong [OF held_update [OF assms(1), of x], of "image_mset show_nat"] by simp
  then have shift: "given_out w' (held (ts[i := x])) + ?f (slot_held (ts ! i)) = given_out w' (slot_held x) + ?f (held ts)"
    by (simp add: given_out_def ac_simps)
  have unshift: "given_out w (slot_held (ts ! i)) + ?f (held ts) = given_out w (held ts) + ?f (slot_held (ts ! i))"
    by (simp add: given_out_def ac_simps)
  have "given_out w' (held (ts[i := x])) = given_out w (held ts)"
    if "given_out w' (slot_held x) = given_out w (slot_held (ts ! i))"
    using shift unshift unfolding that by simp
  moreover have "given_out w' (held (ts[i := x])) = add_mset a (given_out w (held ts))"
    if "given_out w' (slot_held x) = add_mset a (given_out w (slot_held (ts ! i)))" for a
    using shift unshift unfolding that by simp
  ultimately show ?thesis using assms(2) unfolding draws_def by blast
qed

lemma draws_numbered:
  assumes "numbered tgt (ts, w)" and "draws tgt w (held ts) w' (held ts')"
  shows "numbered tgt (ts', w')"
proof -
  from assms(1) obtain k where k: "channel_counter w = k mod 2 ^ ptr_bits tgt"
    "given_out w (held ts) = mset (map (\<lambda>i. show_nat (i mod 2 ^ ptr_bits tgt)) [0..<k])" by (auto simp: numbered_def)
  from assms(2) consider "channel_counter w' = channel_counter w" "given_out w' (held ts') = given_out w (held ts)"
    | "channel_counter w' = Suc k mod 2 ^ ptr_bits tgt"
      "given_out w' (held ts') = mset (map (\<lambda>i. show_nat (i mod 2 ^ ptr_bits tgt)) [0..<Suc k])"
    using k by (auto simp: draws_def mod_Suc_eq)
  then show ?thesis unfolding numbered_def fst_conv snd_conv using k by cases (metis, blast)
qed

lemma numbered_update:
  assumes "numbered tgt (ts, w)" and "i < length ts" and "draws tgt w (slot_held (ts ! i)) w' (slot_held x)"
  shows "numbered tgt (ts[i := x], w')"
  by (rule draws_numbered [OF assms(1) draws_slot [OF assms(2,3)]])

interpretation numbers: inductive_system "\<lambda>s. s = client_init channels" "client_step io tgt" "numbered tgt"
  for channels io tgt
proof unfold_locales
  show "numbered tgt s" if "s = client_init channels" for s
    using that by (simp add: numbered_def client_init_def given_out_def held_def opened_def List.map_filter_def comp_def exI [of _ 0])
next
  fix s s' assume num: "numbered tgt s" and "client_step io tgt s s'"
  from this(2) show "numbered tgt s'"
  proof cases
    case (client_start i ts c w r w')
    have "held_by (task_after (map_res id Inr r)) = []"
      using client_start(5) by (cases "(io, c, w)" rule: start_task.cases)
        (auto simp: call_def and_then_def task_after_def split: res.splits)
    with start_task_opens [of io c w] client_start have "draws tgt w (slot_held (ts ! i)) w'
        (slot_held (Started c (task_after (map_res id Inr r))))" by (simp add: draws_def given_out_def)
    then show ?thesis unfolding client_start(2) by (rule numbered_update [rotated 2]) (use num client_start in simp_all)
  next
    case (client_event i ts c t ev w t' w')
    then have "draws tgt w (slot_held (ts ! i)) w' (slot_held (Started c t'))" by (simp add: task_step_draws)
    then show ?thesis unfolding client_event(2) by (rule numbered_update [rotated 2]) (use num client_event in simp_all)
  qed
qed

text \<open>
  C13: The data channels of a client have distinct labels and the right protocol. In every interleaving of
  the tasks, whatever the sockets and the crate do, and also when other tasks run between the moment a task
  draws its number and the moment it opens its data channel, no two data channels that have been opened
  have the same label, until the shared counter may have gone around once; when no task is between the two
  moments the labels are the numbers from 0 on, each once (in an order that depends on the interleaving).
  Each data channel is opened with the quality and the port of a configured channel.
\<close>

theorem channel_labels_distinct:
  assumes "reach (\<lambda>s. s = client_init channels) (client_step io tgt) (ts, w)"
    and "length (opened w) + length ts \<le> 2 ^ ptr_bits tgt"
  shows "distinct (map fst (opened w))
    \<and> (held ts = [] \<longrightarrow> mset (map fst (opened w)) = mset (map show_nat [0..<length (opened w)]))
    \<and> snd ` set (opened w) \<subseteq> configured channels"
proof -
  from numbers.reach_good [OF assms(1)] obtain k where
    k: "mset (map fst (opened w) @ map show_nat (held ts)) = mset (map (\<lambda>i. show_nat (i mod 2 ^ ptr_bits tgt)) [0..<k])"
    by (auto simp: numbered_def given_out_def)
  have size: "length (opened w) + length (held ts) = k" using arg_cong [OF k, of size] by simp
  with held_length [of ts] assms(2) have "k \<le> 2 ^ ptr_bits tgt" by linarith
  then have "map (\<lambda>i. show_nat (i mod 2 ^ ptr_bits tgt)) [0..<k] = map show_nat [0..<k]" by auto
  with k have m: "mset (map fst (opened w) @ map show_nat (held ts)) = mset (map show_nat [0..<k])" by simp
  have "distinct (map show_nat [0..<k])" by (simp add: distinct_map inj_on_def)
  with mset_eq_imp_distinct_iff [OF m] have "distinct (map fst (opened w))" by simp
  moreover have "snd ` set (opened w) \<subseteq> configured channels"
    using configs.reach_good [OF assms(1)] by (simp add: tasks_inv_def configs_ok_def)
  moreover have "mset (map fst (opened w)) = mset (map show_nat [0..<length (opened w)])" if "held ts = []"
    using m size that by simp
  ultimately show ?thesis by blast
qed

text \<open>A concrete environment, in which every call succeeds and \<open>recv_buf_from\<close> appends to the buffer.\<close>

definition toy_io :: "unit client_io" where
  "toy_io = \<lparr>bind_udp = (\<lambda>p w. Ok ()), bind_tcp = (\<lambda>p w. Ok ()), connect_udp = (\<lambda>a w. Ok ()),
     open_channel = (\<lambda>l c w. Ok ()), recv_buf = (\<lambda>buf d. (length d, buf @ d)),
     sender_send = (\<lambda>i b w. Ok ()), wait_open = (\<lambda>i w. Ok ())\<rparr>"

lemma toy_io_simps [simp]:
  "bind_udp toy_io p w = Ok ()" "bind_tcp toy_io p w = Ok ()" "connect_udp toy_io a w = Ok ()"
  "open_channel toy_io l c w = Ok ()" "recv_buf toy_io buf d = (length d, buf @ d)"
  "sender_send toy_io i b w = Ok ()" "wait_open toy_io i w = Ok ()"
  by (simp_all add: toy_io_def)

lemma reach_start:
  "reach I (client_step io tgt) (ts, w) \<Longrightarrow> i < length ts \<Longrightarrow> ts ! i = Unstarted c
    \<Longrightarrow> reach I (client_step io tgt)
      (ts[i := Started c (task_after (map_res id Inr (fst (start_task io c w))))], snd (start_task io c w))"
  by (rule reach_step, assumption, rule client_start) simp_all

lemma reach_event:
  "reach I (client_step io tgt) (ts, w) \<Longrightarrow> i < length ts \<Longrightarrow> ts ! i = Started c t \<Longrightarrow> task_step io tgt ev t w = Some (t', w')
    \<Longrightarrow> reach I (client_step io tgt) (ts[i := Started c t'], w')"
  by (rule reach_step, assumption, rule client_event)

abbreviation demo_tcp :: Channel where
  "demo_tcp \<equiv> Channel_TCP 80 (Some 8080) (Some Quality_TCP)"

lemma show_digits: "show_nat 0 = ''0''" "show_nat (Suc 0) = ''1''"
  by code_simp+

lemmas demo_step_simps = fetch_add_def call_def act_def task_after_def show_digits x86_64_debug_def tcp_turn_def

text \<open>A client of two TCP channels that have each accepted a connection and drawn a number.\<close>

abbreviation demo_tcp2 :: Channel where
  "demo_tcp2 \<equiv> Channel_TCP 81 None (Some Quality_TCP)"

lemma demo_two_drawn:
  "reach (\<lambda>s. s = client_init [demo_tcp, demo_tcp2]) (client_step toy_io x86_64_debug)
    ([Started demo_tcp (TcpTask 80 Quality_TCP (Some (TcpCreating 0))),
      Started demo_tcp2 (TcpTask 81 Quality_TCP (Some (TcpCreating 1)))],
     \<lparr>channel_counter = 2, actions = [BindTcp 8080, BindTcp 81]\<rparr>)"
proof -
  let ?reach = "reach (\<lambda>s. s = client_init [demo_tcp, demo_tcp2]) (client_step toy_io x86_64_debug)"
  have "?reach (client_init [demo_tcp, demo_tcp2])" by (rule reach_init) (rule refl)
  then have "?reach ([Unstarted demo_tcp, Unstarted demo_tcp2], \<lparr>channel_counter = 0, actions = []\<rparr>)"
    by (simp add: client_init_def)
  from reach_start [OF this, of 0 demo_tcp] have "?reach ([Started demo_tcp (TcpTask 80 Quality_TCP None), Unstarted demo_tcp2],
      \<lparr>channel_counter = 0, actions = [BindTcp 8080]\<rparr>)" by (simp add: demo_step_simps)
  from reach_start [OF this, of 1 demo_tcp2] have "?reach ([Started demo_tcp (TcpTask 80 Quality_TCP None),
      Started demo_tcp2 (TcpTask 81 Quality_TCP None)], \<lparr>channel_counter = 0, actions = [BindTcp 8080, BindTcp 81]\<rparr>)"
    by (simp add: demo_step_simps)
  from reach_event [OF this, of 0 _ _ "TcpEvent (Accepted (Inr ()))"] have "?reach ([Started demo_tcp (TcpTask 80 Quality_TCP
      (Some TcpNumbering)), Started demo_tcp2 (TcpTask 81 Quality_TCP None)],
      \<lparr>channel_counter = 0, actions = [BindTcp 8080, BindTcp 81]\<rparr>)" by (simp add: demo_step_simps)
  from reach_event [OF this, of 1 _ _ "TcpEvent (Accepted (Inr ()))"] have "?reach ([Started demo_tcp (TcpTask 80 Quality_TCP
      (Some TcpNumbering)), Started demo_tcp2 (TcpTask 81 Quality_TCP (Some TcpNumbering))],
      \<lparr>channel_counter = 0, actions = [BindTcp 8080, BindTcp 81]\<rparr>)" by (simp add: demo_step_simps)
  from reach_event [OF this, of 0 _ _ Proceed] have "?reach ([Started demo_tcp (TcpTask 80 Quality_TCP
      (Some (TcpCreating 0))), Started demo_tcp2 (TcpTask 81 Quality_TCP (Some TcpNumbering))],
      \<lparr>channel_counter = 1, actions = [BindTcp 8080, BindTcp 81]\<rparr>)" by (simp add: demo_step_simps)
  from reach_event [OF this, of 1 _ _ Proceed] have "?reach ([Started demo_tcp (TcpTask 80 Quality_TCP
      (Some (TcpCreating 0))), Started demo_tcp2 (TcpTask 81 Quality_TCP (Some (TcpCreating 1)))],
      \<lparr>channel_counter = Suc (Suc 0), actions = [BindTcp 8080, BindTcp 81]\<rparr>)" by (simp add: demo_step_simps)
  then show ?thesis by (simp only: numeral_2_eq_2)
qed

text \<open>They open their data channels in the other order.\<close>

lemma demo_two_opened:
  "reach (\<lambda>s. s = client_init [demo_tcp, demo_tcp2]) (client_step toy_io x86_64_debug)
    ([Started demo_tcp (TcpTask 80 Quality_TCP (Some (TcpOpening 0))),
      Started demo_tcp2 (TcpTask 81 Quality_TCP (Some (TcpOpening 1)))],
     \<lparr>channel_counter = 2, actions = [BindTcp 8080, BindTcp 81, OpenChannel ''1'' (channel_config Quality_TCP 81),
       OpenChannel ''0'' (channel_config Quality_TCP 80)]\<rparr>)"
proof -
  let ?reach = "reach (\<lambda>s. s = client_init [demo_tcp, demo_tcp2]) (client_step toy_io x86_64_debug)"
  from reach_event [OF demo_two_drawn, of 1 _ _ Proceed] have "?reach ([Started demo_tcp (TcpTask 80 Quality_TCP
      (Some (TcpCreating 0))), Started demo_tcp2 (TcpTask 81 Quality_TCP (Some (TcpOpening 1)))],
      \<lparr>channel_counter = 2, actions = [BindTcp 8080, BindTcp 81, OpenChannel ''1'' (channel_config Quality_TCP 81)]\<rparr>)"
    by (simp add: demo_step_simps)
  from reach_event [OF this, of 0 _ _ Proceed] show ?thesis by (simp add: demo_step_simps)
qed

theorem channel_labels_distinct_witness:
  "distinct (map fst [(''1'', channel_config Quality_TCP 81), (''0'', channel_config Quality_TCP 80)])
    \<and> mset (map fst [(''1'', channel_config Quality_TCP 81), (''0'', channel_config Quality_TCP 80)])
        = mset (map show_nat [0..<Suc (Suc 0)])
    \<and> snd ` set [(''1'', channel_config Quality_TCP 81), (''0'', channel_config Quality_TCP 80)]
        \<subseteq> configured [demo_tcp, demo_tcp2]"
proof -
  let ?w = "\<lparr>channel_counter = 2, actions = [BindTcp 8080, BindTcp 81, OpenChannel ''1'' (channel_config Quality_TCP 81),
       OpenChannel ''0'' (channel_config Quality_TCP 80)]\<rparr>"
  have o: "opened ?w = [(''1'', channel_config Quality_TCP 81), (''0'', channel_config Quality_TCP 80)]"
    by (simp add: opened_def List.map_filter_def)
  then have "length (opened ?w) + length [Started demo_tcp (TcpTask 80 Quality_TCP (Some (TcpOpening 0))),
      Started demo_tcp2 (TcpTask 81 Quality_TCP (Some (TcpOpening 1))) :: unit slot] \<le> 2 ^ ptr_bits x86_64_debug"
    by (simp add: x86_64_debug_def)
  from channel_labels_distinct [OF demo_two_opened this] show ?thesis by (simp add: o held_def)
qed

section \<open>What a UDP listener forwards\<close>

definition enqueued :: "client_world \<Rightarrow> bytes set" where
  "enqueued w = {b. \<exists>idx. Enqueue idx b \<in> set (actions w)}"

fun payload_of :: "udp_point \<Rightarrow> bytes" where
  "payload_of (UdpSending channel_idx addr buf) = buf"
| "payload_of (UdpBinding addr buf) = buf"
| "payload_of (UdpConnecting addr buf) = buf"
| "payload_of (UdpNumbering addr buf) = buf"
| "payload_of (UdpCreating channel_idx addr buf) = buf"

lemma enqueued_simps [simp]:
  "enqueued (act (Enqueue idx b) w) = insert b (enqueued w)"
  "enqueued (act (BindUdp p) w) = enqueued w" "enqueued (act (BindTcp p) w) = enqueued w"
  "enqueued (act (ConnectUdp a) w) = enqueued w" "enqueued (act (OpenChannel l c) w) = enqueued w"
  "enqueued (act (SpawnSession i) w) = enqueued w" "enqueued (act (ForgetSender a) w) = enqueued w"
  "enqueued (act (LogOpenFailed i) w) = enqueued w"
  "enqueued (w\<lparr>channel_counter := k\<rparr>) = enqueued w"
  "enqueued \<lparr>channel_counter = k, actions = []\<rparr> = {}"
  by (auto simp: enqueued_def)

text \<open>A step of the handler passes on at most the payload it carries, and keeps the buffer.\<close>

lemma udp_advance_payload:
  assumes "udp_advance io tgt port lp quality pt st w = (r, w')"
  shows "enqueued w' \<subseteq> insert (payload_of pt) (enqueued w)
    \<and> (\<forall>pt' st'. r = Ok (pt', st') \<longrightarrow> ubuf st' = ubuf st \<and> (\<forall>p. pt' = Some p \<longrightarrow> payload_of p = payload_of pt))"
  using assms by (cases "(io, tgt, port, lp, quality, pt, st, w)" rule: udp_advance.cases)
    (auto simp: call_def and_then_def fetch_add_def try_send_def split: listener_splits)

lemma tcp_advance_enqueued: "enqueued (snd (tcp_advance io tgt port quality pt w)) = enqueued w"
  by (cases "(io, tgt, port, quality, pt, w)" rule: tcp_advance.cases)
    (auto simp: call_def and_then_def fetch_add_def split: listener_splits)

lemma start_task_enqueued: "enqueued (snd (start_task io c w)) = enqueued w"
  by (cases "(io, c, w)" rule: start_task.cases) (auto simp: call_def and_then_def split: res.splits)

lemma start_task_udp:
  assumes "start_task io c w = (r, w')" and "task_after (map_res id Inr r) = UdpTask port lp quality st pt"
  shows "st = \<lparr>ubuf = replicate UDP_PACKET_SIZE 0, senders = Map.empty\<rparr> \<and> pt = None \<and> BindUdp lp \<in> set (actions w')"
  using assms by (cases "(io, c, w)" rule: start_task.cases)
    (auto simp: call_def and_then_def task_after_def split: res.splits)

text \<open>
  \<open>recv_buf_from\<close> as its documentation has it: it appends the datagram, or as much of it as there is
  room for, to the buffer, a \<open>Vec\<close>, and returns the number of bytes it appended.
\<close>

definition appends :: "'werr client_io \<Rightarrow> bool" where
  "appends io \<longleftrightarrow> (\<forall>buf d. \<exists>k. recv_buf io buf d = (length (take k d), buf @ take k d))"

text \<open>A datagram is appended, and a prefix of the buffer is what the handler carries.\<close>

lemma udp_turn_datagram:
  assumes "appends io"
  shows "\<exists>n x. udp_turn io (Datagram (Inr (datagram, addr))) st
    = Ok (Inr (case senders st addr of Some idx \<Rightarrow> UdpSending idx addr (take n (ubuf st @ x))
        | None \<Rightarrow> UdpBinding addr (take n (ubuf st @ x)), st\<lparr>ubuf := ubuf st @ x\<rparr>))"
proof -
  from assms obtain n x where n: "recv_buf io (ubuf st) datagram = (n, ubuf st @ x)" "n \<le> length (ubuf st @ x)"
    unfolding appends_def by (metis le_add2 length_append)
  then have "split_at n (ubuf st @ x) = Some (take n (ubuf st @ x), drop n (ubuf st @ x))"
    by (simp add: split_at_def del: take_append drop_append)
  with n(1) show ?thesis by (intro exI [of _ n] exI [of _ x]) (simp add: udp_turn_def del: take_append)
qed

definition zero_prefixed :: "bytes \<Rightarrow> bool" where
  "zero_prefixed b \<longleftrightarrow> set (take UDP_PACKET_SIZE b) \<subseteq> {0}"

lemma zero_prefixed_take: "zero_prefixed (take n (replicate UDP_PACKET_SIZE 0 @ y))"
proof -
  have "take UDP_PACKET_SIZE (take n (replicate UDP_PACKET_SIZE 0 @ y))
      = take n (take UDP_PACKET_SIZE (replicate UDP_PACKET_SIZE 0 @ y))"
    unfolding take_take by (simp only: min.commute)
  then show ?thesis unfolding zero_prefixed_def by (auto dest: in_set_takeD)
qed

definition zero_payloads :: "client_world \<Rightarrow> bool" where
  "zero_payloads w \<longleftrightarrow> (\<forall>b \<in> enqueued w. zero_prefixed b)"

fun zero_task :: "'werr task \<Rightarrow> bool" where
  "zero_task (UdpTask port lp quality st pt) \<longleftrightarrow> (\<exists>x. ubuf st = replicate UDP_PACKET_SIZE 0 @ x)
     \<and> (\<forall>p. pt = Some p \<longrightarrow> zero_prefixed (payload_of p))"
| "zero_task (TcpTask port quality pt) \<longleftrightarrow> True"
| "zero_task (TaskEnded r) \<longleftrightarrow> True"

lemma udp_turn_zero:
  assumes "appends io" and "ubuf st = replicate UDP_PACKET_SIZE 0 @ y" and "udp_turn io ev st = Ok (Inr (pt, st'))"
  shows "(\<exists>x. ubuf st' = replicate UDP_PACKET_SIZE 0 @ x) \<and> zero_prefixed (payload_of pt)"
proof -
  from assms(3) obtain datagram addr where ev: "ev = Datagram (Inr (datagram, addr))"
    by (auto simp: udp_turn_def split: udp_event.splits sum.splits)
  obtain n x where "udp_turn io ev st = Ok (Inr (case senders st addr of Some idx \<Rightarrow> UdpSending idx addr (take n (ubuf st @ x))
        | None \<Rightarrow> UdpBinding addr (take n (ubuf st @ x)), st\<lparr>ubuf := ubuf st @ x\<rparr>))"
    using udp_turn_datagram [OF assms(1)] unfolding ev by blast
  with assms(3) have "ubuf st' = ubuf st @ x" "payload_of pt = take n (ubuf st @ x)"
    by (auto simp del: take_append split: option.splits)
  with zero_prefixed_take [of n "y @ x"] assms(2) show ?thesis by (simp del: take_append)
qed

lemma zeros_event:
  assumes "appends io" and "zero_payloads w" and "zero_task t" and "task_step io tgt ev t w = Some (t', w')"
  shows "zero_payloads w' \<and> zero_task t'"
  using assms(4)
proof (cases rule: task_stepE)
  case (UdpTurn uev port lp quality st)
  with assms(3) obtain y where y: "ubuf st = replicate UDP_PACKET_SIZE 0 @ y" by auto
  have "zero_task t'" unfolding UdpTurn(4)
    by (rule task_after_turn) (use udp_turn_zero [OF assms(1) y] in auto)
  with UdpTurn assms(2) show ?thesis by simp
next
  case (UdpAdvance port lp quality st pt r)
  note p = udp_advance_payload [OF UdpAdvance(3)]
  have "zero_task t'" unfolding UdpAdvance(4)
    by (rule task_after_udp_advance) (use p assms(3) UdpAdvance(2) in auto)
  moreover have "zero_payloads w'" using p assms(2,3) UdpAdvance(2) by (auto simp: zero_payloads_def)
  ultimately show ?thesis by simp
next
  case (TcpTurn tev port quality)
  have "zero_task t'" unfolding TcpTurn(4) by (rule task_after_turn) simp_all
  with TcpTurn assms(2) show ?thesis by simp
next
  case (TcpAdvance port quality pt r)
  have "zero_task t'" unfolding TcpAdvance(4) by (rule task_after_advance) simp_all
  moreover have "enqueued w' = enqueued w" using tcp_advance_enqueued [of io tgt port quality pt w] TcpAdvance(3) by simp
  ultimately show ?thesis using assms(2) by (simp add: zero_payloads_def)
qed

lemma zero_task_start: "start_task io c w = (r, w') \<Longrightarrow> zero_task (task_after (map_res id Inr r))"
  by (cases "task_after (map_res id Inr r)") (auto dest: start_task_udp)

interpretation zeros: task_invariant io tgt channels "\<lambda>c t w. appends io \<longrightarrow> zero_task t"
  "\<lambda>w. appends io \<longrightarrow> zero_payloads w" for io tgt channels
proof unfold_locales
  fix w c r w'
  assume *: "appends io \<longrightarrow> zero_payloads w" "start_task io c w = (r, w')"
  with zero_task_start [OF *(2)] start_task_enqueued [of io c w] show "(appends io \<longrightarrow> zero_payloads w')
      \<and> (appends io \<longrightarrow> zero_task (task_after (map_res id Inr r)))" by (simp add: zero_payloads_def)
qed (auto simp: zero_payloads_def [of "\<lparr>channel_counter = 0, actions = []\<rparr>"] dest: zeros_event)

text \<open>
  C36: A UDP listener forwards zeros instead of data. The buffer of a listener is a vector that starts with
  512 zero bytes; \<open>recv_buf_from\<close> appends every datagram behind them, while the listener forwards the
  first \<open>n\<close> bytes of the vector, \<open>n\<close> the length of the datagram. In every interleaving of the tasks, the
  first 512 bytes of every payload that a listener has passed to a session are zero.
\<close>

theorem udp_listener_forwards_zeros:
  assumes "reach (\<lambda>s. s = client_init channels) (client_step io tgt) (ts, w)" and "appends io"
    and "Enqueue idx payload \<in> set (actions w)"
  shows "take UDP_PACKET_SIZE payload = replicate (min UDP_PACKET_SIZE (length payload)) 0"
proof -
  from zeros.reach_good [OF assms(1)] assms(2,3) have "set (take UDP_PACKET_SIZE payload) \<subseteq> {0}"
    by (auto simp: tasks_inv_def zero_payloads_def zero_prefixed_def enqueued_def)
  then have "take UDP_PACKET_SIZE payload = replicate (length (take UDP_PACKET_SIZE payload)) 0"
    by (intro replicate_length_same [symmetric]) auto
  then show ?thesis by (simp add: min.commute)
qed

lemma toy_io_appends: "appends toy_io"
  unfolding appends_def
proof (intro allI)
  fix buf d :: bytes
  show "\<exists>k. recv_buf toy_io buf d = (length (take k d), buf @ take k d)" by (rule exI [of _ "length d"]) simp
qed

abbreviation demo_udp :: Channel where
  "demo_udp \<equiv> Channel_UDP 53 None (Some Quality_UDP)"

abbreviation fresh_udp :: udp_state where
  "fresh_udp \<equiv> \<lparr>ubuf = replicate UDP_PACKET_SIZE 0, senders = Map.empty\<rparr>"

lemma reach_udp_started:
  assumes "bind_udp io 53 \<lparr>channel_counter = 0, actions = []\<rparr> = Ok ()"
  shows "reach (\<lambda>s. s = client_init [demo_udp]) (client_step io tgt)
    ([Started demo_udp (UdpTask 53 53 Quality_UDP fresh_udp None)], \<lparr>channel_counter = 0, actions = [BindUdp 53]\<rparr>)"
proof -
  have "reach (\<lambda>s. s = client_init [demo_udp]) (client_step io tgt) ([Unstarted demo_udp], \<lparr>channel_counter = 0, actions = []\<rparr>)"
    by (rule reach_init) (simp add: client_init_def)
  from reach_start [OF this, of 0 demo_udp] assms show ?thesis by (simp add: demo_step_simps)
qed

text \<open>A datagram of three bytes that are not zero, up to the session that gets three zeros.\<close>

lemma demo_udp_reach:
  "\<exists>ts w. reach (\<lambda>s. s = client_init [demo_udp]) (client_step toy_io x86_64_debug) (ts, w)
    \<and> Enqueue 0 [0, 0, 0] \<in> set (actions w)"
proof -
  let ?reach = "reach (\<lambda>s. s = client_init [demo_udp]) (client_step toy_io x86_64_debug)"
  let ?addr = "SocketAddr [] 1" and ?st = "fresh_udp\<lparr>ubuf := replicate UDP_PACKET_SIZE 0 @ [7, 8, 9]\<rparr>"
  let ?t = "\<lambda>pt. [Started demo_udp (UdpTask 53 53 Quality_UDP ?st (Some pt))]"
  have turn: "udp_turn toy_io (Datagram (Inr ([7, 8, 9], ?addr))) fresh_udp = Ok (Inr (UdpBinding ?addr [0, 0, 0], ?st))"
    by (simp add: udp_turn_def split_at_def UDP_PACKET_SIZE_def take_replicate eval_nat_numeral)
  have "?reach ([Started demo_udp (UdpTask 53 53 Quality_UDP fresh_udp None)], \<lparr>channel_counter = 0, actions = [BindUdp 53]\<rparr>)"
    by (rule reach_udp_started) simp
  from reach_event [OF this, of 0 _ _ "UdpEvent (Datagram (Inr ([7, 8, 9], ?addr)))"]
  have "?reach (?t (UdpBinding ?addr [0, 0, 0]), \<lparr>channel_counter = 0, actions = [BindUdp 53]\<rparr>)"
    by (simp add: turn task_after_def)
  from reach_event [OF this, of 0 _ _ Proceed]
  have "?reach (?t (UdpConnecting ?addr [0, 0, 0]), \<lparr>channel_counter = 0, actions = [BindUdp 53, BindUdp 53]\<rparr>)"
    by (simp add: demo_step_simps)
  from reach_event [OF this, of 0 _ _ Proceed]
  have "?reach (?t (UdpNumbering ?addr [0, 0, 0]), \<lparr>channel_counter = 0, actions = [BindUdp 53, BindUdp 53, ConnectUdp ?addr]\<rparr>)"
    by (simp add: demo_step_simps)
  from reach_event [OF this, of 0 _ _ Proceed]
  have "?reach (?t (UdpCreating 0 ?addr [0, 0, 0]), \<lparr>channel_counter = 1, actions = [BindUdp 53, BindUdp 53, ConnectUdp ?addr]\<rparr>)"
    by (simp add: demo_step_simps)
  from reach_event [OF this, of 0 _ _ Proceed] have "?reach ([Started demo_udp (UdpTask 53 53 Quality_UDP
      (?st\<lparr>senders := hash_insert Map.empty ?addr 0\<rparr>) None)], \<lparr>channel_counter = 1, actions =
      [BindUdp 53, BindUdp 53, ConnectUdp ?addr, OpenChannel ''0'' (channel_config Quality_UDP 53), Enqueue 0 [0, 0, 0], SpawnSession 0]\<rparr>)"
    by (simp add: demo_step_simps try_send_def)
  moreover have "Enqueue 0 [0, 0, 0] \<in> set (actions \<lparr>channel_counter = 1, actions =
      [BindUdp 53, BindUdp 53, ConnectUdp ?addr, OpenChannel ''0'' (channel_config Quality_UDP 53), Enqueue 0 [0, 0, 0], SpawnSession 0]\<rparr>)"
    by simp
  ultimately show ?thesis by blast
qed

theorem udp_listener_forwards_zeros_witness:
  "\<exists>ts w. reach (\<lambda>s. s = client_init [demo_udp]) (client_step toy_io x86_64_debug) (ts, w)
    \<and> Enqueue 0 [0, 0, 0] \<in> set (actions w)
    \<and> take UDP_PACKET_SIZE [0, 0, 0] = replicate (min UDP_PACKET_SIZE (length [0 :: byte, 0, 0])) (0 :: byte)"
  using demo_udp_reach udp_listener_forwards_zeros [OF _ toy_io_appends] by blast

text \<open>
  A system on which a UDP port can be bound once only, the default of \<open>UdpSocket::bind\<close>, which does not
  set \<open>SO_REUSEADDR\<close>.
\<close>

definition exclusive :: "'werr client_io \<Rightarrow> bool" where
  "exclusive io \<longleftrightarrow> (\<forall>p w. BindUdp p \<in> set (actions w) \<longrightarrow> bind_udp io p w = Err (IoErr AddrInUse []))"

text \<open>A listener without senders, which gets no further than its second bind.\<close>

fun no_senders :: "'werr task \<Rightarrow> client_world \<Rightarrow> bool" where
  "no_senders (UdpTask port lp quality st pt) w \<longleftrightarrow> senders st = Map.empty \<and> BindUdp lp \<in> set (actions w)
     \<and> (\<forall>p. pt = Some p \<longrightarrow> (\<exists>addr buf. p = UdpBinding addr buf))"
| "no_senders (TcpTask port quality pt) w \<longleftrightarrow> True"
| "no_senders (TaskEnded r) w \<longleftrightarrow> True"

lemma second_bind_fails:
  assumes "exclusive io" and "BindUdp lp \<in> set (actions w)"
  shows "udp_advance io tgt port lp quality (UdpBinding addr buf) st w
    = (Err (Task_Io (IoErr AddrInUse [])), act (BindUdp lp) w)"
  using assms by (simp add: call_def exclusive_def)

lemma exclusive_event:
  assumes "exclusive io" and "enqueued w = {}" and "no_senders t w" and "task_step io tgt ev t w = Some (t', w')"
  shows "enqueued w' = {} \<and> no_senders t' w'"
  using assms(4)
proof (cases rule: task_stepE)
  case (UdpTurn uev port lp quality st)
  have "no_senders t' w'" unfolding UdpTurn(4)
    by (rule task_after_turn [where P = "\<lambda>t. no_senders t w'"])
      (use assms(3) UdpTurn(2,3) in \<open>auto simp: udp_turn_def split: udp_event.splits sum.splits prod.splits option.splits\<close>)
  with UdpTurn assms(2) show ?thesis by simp
next
  case (UdpAdvance port lp quality st pt r)
  with assms(3) obtain addr buf where "pt = UdpBinding addr buf" "BindUdp lp \<in> set (actions w)" by auto
  with second_bind_fails [OF assms(1)] UdpAdvance assms(2) show ?thesis by (auto simp: task_after_def)
next
  case (TcpTurn tev port quality)
  have "no_senders t' w'" unfolding TcpTurn(4) by (rule task_after_turn [where P = "\<lambda>t. no_senders t w'"]) simp_all
  with TcpTurn assms(2) show ?thesis by simp
next
  case (TcpAdvance port quality pt r)
  have "no_senders t' w'" unfolding TcpAdvance(4) by (rule task_after_advance [where P = "\<lambda>t. no_senders t w'"]) simp_all
  moreover have "enqueued w' = enqueued w" using tcp_advance_enqueued [of io tgt port quality pt w] TcpAdvance(3) by simp
  ultimately show ?thesis using assms(2) by simp
qed

lemma no_senders_start: "start_task io c w = (r, w') \<Longrightarrow> no_senders (task_after (map_res id Inr r)) w'"
  by (cases "task_after (map_res id Inr r)") (auto dest: start_task_udp)

lemma no_senders_extends: "no_senders t w \<Longrightarrow> extends w w' \<Longrightarrow> no_senders t w'"
  by (cases t) (auto simp: extends_def)

interpretation second_bind: task_invariant io tgt channels "\<lambda>c t w. exclusive io \<longrightarrow> no_senders t w"
  "\<lambda>w. exclusive io \<longrightarrow> enqueued w = {}" for io tgt channels
proof unfold_locales
  fix w c r w'
  assume *: "exclusive io \<longrightarrow> enqueued w = {}" "start_task io c w = (r, w')"
  with no_senders_start [OF *(2)] start_task_enqueued [of io c w] show "(exclusive io \<longrightarrow> enqueued w' = {})
      \<and> (exclusive io \<longrightarrow> no_senders (task_after (map_res id Inr r)) w')" by simp
qed (auto dest: exclusive_event no_senders_extends)

text \<open>
  C38: A UDP channel carries nothing where a port can be bound only once. For the first datagram of a client
  the listener binds a second socket to its own address; where the system refuses that (its default), no
  payload is ever passed to a session, in any interleaving of the tasks: a datagram takes a running UDP
  listener to its second bind, and from there the next step of the listener, whatever the other tasks have
  done meanwhile, ends it with the error of the bind.
\<close>

theorem udp_channel_needs_second_bind:
  assumes "reach (\<lambda>s. s = client_init channels) (client_step io tgt) (ts, w)" and "exclusive io"
  shows "enqueued w = {}
    \<and> (Started c (UdpTask port lp quality st None) \<in> set ts \<and> appends io \<longrightarrow>
        (\<exists>buf st'. task_step io tgt (UdpEvent (Datagram (Inr (datagram, addr)))) (UdpTask port lp quality st None) w
          = Some (UdpTask port lp quality st' (Some (UdpBinding addr buf)), w)))
    \<and> (Started c (UdpTask port lp quality st (Some pt)) \<in> set ts \<longrightarrow>
        (\<exists>w'. task_step io tgt Proceed (UdpTask port lp quality st (Some pt)) w
          = Some (TaskEnded (Err (Task_Io (IoErr AddrInUse []))), w')))"
proof (intro conjI impI)
  from second_bind.reach_good [OF assms(1)] assms(2)
  have inv: "enqueued w = {}" "\<forall>sl \<in> set ts. slot_ok (\<lambda>c t. no_senders t w) sl" by (simp_all add: tasks_inv_def)
  then show "enqueued w = {}" by simp
  {
    assume a: "Started c (UdpTask port lp quality st None) \<in> set ts \<and> appends io"
    with inv(2) have "senders st = Map.empty" by auto
    with udp_turn_datagram [of io datagram addr st] a
    show "\<exists>buf st'. task_step io tgt (UdpEvent (Datagram (Inr (datagram, addr)))) (UdpTask port lp quality st None) w
        = Some (UdpTask port lp quality st' (Some (UdpBinding addr buf)), w)" by (auto simp: task_after_def)
  }
  assume "Started c (UdpTask port lp quality st (Some pt)) \<in> set ts"
  from bspec [OF inv(2) this] obtain addr buf where "pt = UdpBinding addr buf" "BindUdp lp \<in> set (actions w)" by auto
  with second_bind_fails [OF assms(2)] show "\<exists>w'. task_step io tgt Proceed (UdpTask port lp quality st (Some pt)) w
      = Some (TaskEnded (Err (Task_Io (IoErr AddrInUse []))), w')" by (simp add: task_after_def)
qed

definition exclusive_io :: "unit client_io" where
  "exclusive_io = toy_io\<lparr>bind_udp := \<lambda>p w. if BindUdp p \<in> set (actions w) then Err (IoErr AddrInUse []) else Ok ()\<rparr>"

theorem udp_channel_needs_second_bind_witness:
  "\<exists>buf st'. task_step exclusive_io x86_64_debug (UdpEvent (Datagram (Inr ([7, 8, 9], SocketAddr [] 1))))
      (UdpTask 53 53 Quality_UDP fresh_udp None) \<lparr>channel_counter = 0, actions = [BindUdp 53]\<rparr>
    = Some (UdpTask 53 53 Quality_UDP st' (Some (UdpBinding (SocketAddr [] 1) buf)), \<lparr>channel_counter = 0, actions = [BindUdp 53]\<rparr>)"
proof -
  have 1: "reach (\<lambda>s. s = client_init [demo_udp]) (client_step exclusive_io x86_64_debug)
    ([Started demo_udp (UdpTask 53 53 Quality_UDP fresh_udp None)], \<lparr>channel_counter = 0, actions = [BindUdp 53]\<rparr>)"
    by (rule reach_udp_started) (simp add: exclusive_io_def)
  have "exclusive exclusive_io" "appends exclusive_io"
    using toy_io_appends by (simp_all add: exclusive_def exclusive_io_def appends_def)
  with udp_channel_needs_second_bind [OF 1, of demo_udp 53 53 Quality_UDP fresh_udp] show ?thesis by simp
qed

section \<open>Panics of a task\<close>

text \<open>A channel that the client supports: of UDP or TCP, with a quality.\<close>

fun supported :: "Channel \<Rightarrow> bool" where
  "supported (Channel_UDP port remap quality) \<longleftrightarrow> quality \<noteq> None"
| "supported (Channel_TCP port remap quality) \<longleftrightarrow> quality \<noteq> None"
| "supported (Channel_LocalSocket addr remap quality) \<longleftrightarrow> False"

text \<open>Calls that do not panic.\<close>

definition io_no_panic :: "'werr client_io \<Rightarrow> bool" where
  "io_no_panic io \<longleftrightarrow> (\<forall>w. (\<forall>p. bind_udp io p w \<noteq> Panicked) \<and> (\<forall>p. bind_tcp io p w \<noteq> Panicked)
     \<and> (\<forall>a. connect_udp io a w \<noteq> Panicked) \<and> (\<forall>l c. open_channel io l c w \<noteq> Panicked)
     \<and> (\<forall>i b. sender_send io i b w \<noteq> Panicked) \<and> (\<forall>i. wait_open io i w \<noteq> Panicked))"

lemma io_no_panicD:
  assumes "io_no_panic io"
  shows "bind_udp io p w \<noteq> Panicked" "bind_tcp io p w \<noteq> Panicked" "connect_udp io a w \<noteq> Panicked"
    "open_channel io l c w \<noteq> Panicked" "sender_send io i b w \<noteq> Panicked" "wait_open io i w \<noteq> Panicked"
  using assms by (auto simp: io_no_panic_def)

lemma task_after_panic: "task_after r = TaskEnded Panicked \<longleftrightarrow> r = Panicked \<or> r = Ok (Inr (TaskEnded Panicked))"
  by (auto simp: task_after_def split: res.splits sum.splits)

lemma start_task_panics:
  assumes "io_no_panic io"
  shows "fst (start_task io c w) = Panicked \<longleftrightarrow> \<not> supported c"
  by (cases "(io, c, w)" rule: start_task.cases)
    (auto simp: call_def and_then_def map_res_Panicked_iff io_no_panicD [OF assms] split: res.splits)

lemma start_task_no_ended: "fst (start_task io c w) \<noteq> Ok (TaskEnded r)"
  by (cases "(io, c, w)" rule: start_task.cases) (auto simp: call_def and_then_def split: res.splits)

lemma udp_advance_no_panic: "io_no_panic io \<Longrightarrow> fst (udp_advance io tgt port lp quality pt st w) \<noteq> Panicked"
  by (cases "(io, tgt, port, lp, quality, pt, st, w)" rule: udp_advance.cases)
    (auto simp: call_def and_then_def fetch_add_def try_send_def map_res_Panicked_iff io_no_panicD split: listener_splits)

lemma tcp_advance_no_panic: "io_no_panic io \<Longrightarrow> fst (tcp_advance io tgt port quality pt w) \<noteq> Panicked"
  by (cases "(io, tgt, port, quality, pt, w)" rule: tcp_advance.cases)
    (auto simp: call_def and_then_def fetch_add_def map_res_Panicked_iff io_no_panicD split: listener_splits)

lemma udp_turn_no_panic:
  assumes "appends io"
  shows "udp_turn io ev st \<noteq> Panicked"
proof (cases "\<exists>datagram addr. ev = Datagram (Inr (datagram, addr))")
  case True
  then show ?thesis using udp_turn_datagram [OF assms] by (metis res.distinct(3))
qed (auto simp: udp_turn_def split: udp_event.splits sum.splits)

lemma task_step_no_panic:
  assumes "io_no_panic io" and "appends io" and "task_step io tgt ev t w = Some (t', w')"
  shows "t' \<noteq> TaskEnded Panicked"
  using assms(3)
proof (cases rule: task_stepE)
  case (UdpTurn uev port lp quality st)
  with udp_turn_no_panic [OF assms(2), of uev st] show ?thesis
    by (auto simp: task_after_panic map_res_Panicked_iff map_res_Ok_iff map_sum_def split: sum.splits)
next
  case (UdpAdvance port lp quality st pt r)
  with udp_advance_no_panic [OF assms(1), of tgt port lp quality pt st w] show ?thesis
    by (auto simp: task_after_panic map_res_Panicked_iff map_res_Ok_iff)
next
  case (TcpTurn tev port quality)
  then show ?thesis by (auto simp: tcp_turn_def task_after_def split: tcp_event.splits sum.splits)
next
  case (TcpAdvance port quality pt r)
  with tcp_advance_no_panic [OF assms(1), of tgt port quality pt w] show ?thesis
    by (auto simp: task_after_panic map_res_Panicked_iff map_res_Ok_iff)
qed

interpretation panics: task_invariant io tgt channels
  "\<lambda>c t w. io_no_panic io \<and> appends io \<longrightarrow> t = TaskEnded Panicked \<longrightarrow> \<not> supported c" "\<lambda>w. True" for io tgt channels
proof unfold_locales
  fix w c r w'
  assume "start_task io c w = (r, w')"
  with start_task_panics [of io c w] start_task_no_ended [of io c w] show "True \<and>
      (io_no_panic io \<and> appends io \<longrightarrow> task_after (map_res id Inr r) = TaskEnded Panicked \<longrightarrow> \<not> supported c)"
    by (auto simp: task_after_panic map_res_Panicked_iff map_res_Ok_iff)
qed (auto dest: task_step_no_panic)

lemma task_panics_only_unsupported:
  assumes "reach (\<lambda>s. s = client_init channels) (client_step io tgt) (ts, w)" and "io_no_panic io" and "appends io"
    and "Started c (TaskEnded Panicked) \<in> set ts"
  shows "\<not> supported c"
  using panics.reach_good [OF assms(1)] bspec [of "set ts" _ "Started c (TaskEnded Panicked)"] assms
  by (auto simp: tasks_inv_def)

section \<open>What the sessions carry\<close>

fun to_channel :: "session_output list \<Rightarrow> bytes" where
  "to_channel [] = []"
| "to_channel (ToChannel b # h) = b @ to_channel h"
| "to_channel (ToClient b # h) = to_channel h"

fun to_client :: "session_output list \<Rightarrow> bytes list" where
  "to_client [] = []"
| "to_client (ToChannel b # h) = to_client h"
| "to_client (ToClient b # h) = b # to_client h"

lemma session_outputs [simp]:
  "to_channel (h @ h') = to_channel h @ to_channel h'" "to_client (h @ h') = to_client h @ to_client h'"
  "to_channel (map ToChannel bs) = concat bs" "to_client (map ToChannel bs) = []"
proof -
  show "to_channel (h @ h') = to_channel h @ to_channel h'" by (induction h rule: to_channel.induct) auto
  show "to_client (h @ h') = to_client h @ to_client h'" by (induction h rule: to_client.induct) auto
  show "to_channel (map ToChannel bs) = concat bs" "to_client (map ToChannel bs) = []" by (induction bs) auto
qed

text \<open>Inputs on which the calls of a UDP session succeed, each send with at least one byte.\<close>

fun relayed :: "'werr udp_input \<Rightarrow> bool" where
  "relayed (FromListener (Some m) rs) \<longleftrightarrow> honest_sends (\<lambda>n. n) m 0 rs \<and> positive_sends rs \<and> length m \<le> taken rs"
| "relayed (UdpFromChannel (Some m) r) \<longleftrightarrow> (\<exists>n. r = Ok n)"
| "relayed _ \<longleftrightarrow> False"

fun from_listener :: "'werr udp_input \<Rightarrow> bytes" where
  "from_listener (FromListener (Some m) rs) = m"
| "from_listener _ = []"

fun from_channel :: "'werr udp_input \<Rightarrow> bytes list" where
  "from_channel (UdpFromChannel (Some m) r) = [m]"
| "from_channel _ = []"

text \<open>
  C26: The session of a UDP client relays both directions faithfully. As long as the calls succeed and every
  send takes at least one byte, the session goes on after every input; the bytes it has sent to the data
  channel are the messages of the listener, complete and in order however the sends cut them, and it has
  passed every message of the data channel to the client, in order.
\<close>

theorem udp_client_session_relays:
  assumes "\<forall>ev \<in> set evs. relayed ev"
  shows "\<exists>out. udp_client_session evs h = (Blocked, h @ out)
    \<and> to_channel out = concat (map from_listener evs) \<and> to_client out = concat (map from_channel evs)"
  using assms
proof (induction evs arbitrary: h)
  case (Cons ev evs)
  show ?case
  proof (cases ev rule: relayed.cases)
    case (1 m rs)
    with Cons.prems send_loop_delivers [of m rs] obtain chunks where
      c: "send_loop (\<lambda>n. n) m 0 rs = (Ok (), chunks)" "concat chunks = m" by auto
    from Cons obtain out where "udp_client_session evs (h @ map ToChannel chunks) = (Blocked, (h @ map ToChannel chunks) @ out)"
      "to_channel out = concat (map from_listener evs)" "to_client out = concat (map from_channel evs)"
      by (meson list.set_intros(2))
    with 1 c show ?thesis by (intro exI [of _ "map ToChannel chunks @ out"]) simp
  next
    case (2 m r)
    from Cons obtain out where "udp_client_session evs (h @ [ToClient m]) = (Blocked, (h @ [ToClient m]) @ out)"
      "to_channel out = concat (map from_listener evs)" "to_client out = concat (map from_channel evs)"
      by (meson list.set_intros(2))
    with 2 Cons.prems show ?thesis by (intro exI [of _ "ToClient m # out"]) auto
  qed (use Cons.prems in auto)
qed simp

theorem udp_client_session_relays_witness:
  "\<exists>out. udp_client_session [FromListener (Some [1, 2, 3]) [Inr 2, Inr 1], UdpFromChannel (Some [9]) (Ok 1)] []
      = (Blocked :: (unit, unit) res, [] @ out)
    \<and> to_channel out = concat (map from_listener [FromListener (Some [1, 2, 3]) [Inr 2, Inr 1 :: unit + nat],
        UdpFromChannel (Some [9]) (Ok 1)])
    \<and> to_client out = concat (map from_channel [FromListener (Some [1, 2, 3]) [Inr 2, Inr 1 :: unit + nat],
        UdpFromChannel (Some [9]) (Ok 1)])"
proof (rule udp_client_session_relays)
  show "\<forall>ev \<in> set [FromListener (Some [1, 2, 3]) [Inr 2, Inr 1 :: unit + nat], UdpFromChannel (Some [9]) (Ok 1)].
    relayed ev" by (simp add: positive_sends_def)
qed

text \<open>Sends on the data channel that take no more than they are given.\<close>

fun tcp_honest :: "'werr tcp_input \<Rightarrow> bool" where
  "tcp_honest (FromStream (Inr available) rs) \<longleftrightarrow>
     honest_sends (\<lambda>_. length (take 2048 available)) (take 2048 available) 0 rs"
| "tcp_honest _ \<longleftrightarrow> True"

lemma send_loop_empty_message: "send_loop start [] 0 rs = (Ok (), [])"
  by (cases rs) simp_all

lemma tcp_read_stuck:
  assumes "tcp_honest (FromStream (Inr available) rs)" and "available \<noteq> []"
  shows "\<exists>chunks. snd (tcp_client_session (FromStream (Inr available) rs # evs) h) = h @ map ToChannel chunks
    \<and> concat chunks = [] \<and> fst (tcp_client_session (FromStream (Inr available) rs # evs) h) \<in> {Blocked, Panicked}"
proof -
  let ?m = "take 2048 available"
  from assms have s: "fst (send_loop (\<lambda>_. length ?m) ?m 0 rs) \<noteq> Ok ()"
    "concat (snd (send_loop (\<lambda>_. length ?m) ?m 0 rs)) = []"
    using send_loop_stuck [of ?m rs "()"] by simp_all
  obtain r chunks where r: "send_loop (\<lambda>_. length ?m) ?m 0 rs = (r, chunks)"
    by (cases "send_loop (\<lambda>_. length ?m) ?m 0 rs")
  have "r \<noteq> Err e" for e using send_loop_no_error [of "\<lambda>_. length ?m" ?m 0 rs e] unfolding r by simp
  moreover have "r \<noteq> Ok ()" "concat chunks = []" using s unfolding r by simp_all
  ultimately have "r = Blocked \<or> r = Panicked" "concat chunks = []" by (cases r; auto)+
  with r show ?thesis by (auto simp: Let_def)
qed

text \<open>
  C37: The session of a TCP client sends nothing of what it reads. The loop that should send the bytes of a
  read slices them from their end on, so every send is empty: over a whole session, with sends that take
  no more than they are given, the bytes sent to the data channel are none, and the first read of at least
  one byte leaves the session in that loop for good (or in a panic), so that it neither returns nor serves
  the other direction again. The end of the client's stream, a read of zero bytes, does not end the session.
\<close>

theorem tcp_client_session_sends_nothing:
  assumes "\<forall>ev \<in> set evs. tcp_honest ev"
  shows "to_channel (snd (tcp_client_session evs [])) = []
    \<and> (read \<noteq> [] \<and> tcp_honest (FromStream (Inr read) rs) \<longrightarrow>
        fst (tcp_client_session (FromStream (Inr read) rs # rest) []) \<in> {Blocked, Panicked}
        \<and> to_client (snd (tcp_client_session (FromStream (Inr read) rs # rest) [])) = [])
    \<and> tcp_client_session (FromStream (Inr []) rs' # evs) h = tcp_client_session evs h"
proof (intro conjI)
  have "to_channel (snd (tcp_client_session evs h)) = to_channel h" for h
    using assms
  proof (induction evs h rule: tcp_client_session.induct)
    case (3 available rs evs h)
    show ?case
    proof (cases "available = []")
      case True
      with 3 show ?thesis by (simp add: send_loop_empty_message)
    next
      case False
      with tcp_read_stuck [of available rs evs h] 3(2) show ?thesis by auto
    qed
  next
    case (5 bytes r evs h)
    then show ?case by (cases r) simp_all
  qed simp_all
  then show "to_channel (snd (tcp_client_session evs [])) = []" by simp
  show "tcp_client_session (FromStream (Inr []) rs' # evs) h = tcp_client_session evs h"
    by (simp add: send_loop_empty_message)
  show "read \<noteq> [] \<and> tcp_honest (FromStream (Inr read) rs) \<longrightarrow>
        fst (tcp_client_session (FromStream (Inr read) rs # rest) []) \<in> {Blocked, Panicked}
        \<and> to_client (snd (tcp_client_session (FromStream (Inr read) rs # rest) [])) = []"
    using tcp_read_stuck [of read rs rest "[]"] by auto
qed

theorem tcp_client_session_sends_nothing_witness:
  "to_channel (snd (tcp_client_session [TcpFromChannel (Some [5]) (Ok ()), FromStream (Inr [1, 2]) [Inr 0, Inr 0 :: unit + nat],
      TcpFromChannel (Some [6]) (Ok ())] [])) = []
   \<and> fst (tcp_client_session (FromStream (Inr [1, 2]) [Inr 0, Inr 0 :: unit + nat] # [TcpFromChannel (Some [6]) (Ok ())]) [])
      \<in> {Blocked, Panicked}"
  using tcp_client_session_sends_nothing [of "[TcpFromChannel (Some [5]) (Ok ()), FromStream (Inr [1, 2])
      [Inr 0, Inr 0 :: unit + nat], TcpFromChannel (Some [6]) (Ok ())]" "[1, 2]" "[Inr 0, Inr 0]"
      "[TcpFromChannel (Some [6]) (Ok ())]" "[]" "[]"] by simp

end
