(* ===== verification/Server_Run.thy ===== *)
theory Server_Run
  imports Upgrade_Server Tls_Init
begin

text \<open>
  The endpoints around the upgrade: construction of clients and servers, the TLS wrappers
  (\<open>client.rs\<close> and \<open>server.rs\<close> of \<open>upgrade2webrtc\<close>), and the accept loop \<open>run\<close> of the server
  with its close handle, as a step relation over the state of the loop and of the tasks it spawned.
\<close>

section \<open>Construction of endpoints\<close>

text \<open>\<open>RTCConfiguration\<close> with the fields the code sets; the others are defaults.\<close>

record RTCConfiguration =
  ice_server_urls :: "string list list"

record 'c UpgradeWebRTCClient =
  client :: 'c
  client_config :: RTCConfiguration

record 's UpgradeWebRTCServer =
  server :: 's
  server_config :: RTCConfiguration

definition stun_config :: RTCConfiguration where
  "stun_config = \<lparr>ice_server_urls = [STUN_SERVERS]\<rparr>"

definition client_new :: "'c \<Rightarrow> 'c UpgradeWebRTCClient" where
  "client_new c = \<lparr>client = c, client_config = stun_config\<rparr>"

definition server_new :: "'s \<Rightarrow> 's UpgradeWebRTCServer" where
  "server_new s = \<lparr>server = s, server_config = stun_config\<rparr>"

definition client_new_tcp ::
  "io_error + (id_stream \<times> stream) \<Rightarrow> io_error + (id_stream \<times> StreamTransport) UpgradeWebRTCClient" where
  "client_new_tcp connected = map_sum id (\<lambda>(i, s). client_new (BufStream i, transport_from s)) connected"

definition client_new_local_socket ::
  "io_error + (id_stream \<times> stream) \<Rightarrow> io_error + (id_stream \<times> StreamTransport) UpgradeWebRTCClient" where
  "client_new_local_socket connected =
     map_sum id (\<lambda>(i, s). client_new (BufStream (Compat i), transport_from s)) connected"

definition server_new_tcp :: "io_error + 'l \<Rightarrow> io_error + 'l UpgradeWebRTCServer" where
  "server_new_tcp bound = map_sum id server_new bound"

definition server_new_local_socket :: "io_error + 'l \<Rightarrow> io_error + 'l UpgradeWebRTCServer" where
  "server_new_local_socket bound = map_sum id server_new bound"

text \<open>
  \<open>add_tls\<close> of the client: the TLS handshake on the raw stream (a parameter), then a fresh transport
  on the encrypted stream with the client's configuration.
\<close>

definition client_add_tls ::
  "(stream \<Rightarrow> io_error + stream) \<Rightarrow> (id_stream \<times> StreamTransport) UpgradeWebRTCClient
    \<Rightarrow> io_error + (id_stream \<times> StreamTransport) UpgradeWebRTCClient" where
  "client_add_tls connect c = (case client c of (i, t) \<Rightarrow>
     (case connect (stream t) of
        Inl e \<Rightarrow> Inl e
      | Inr s \<Rightarrow> Inr \<lparr>client = (ClientTlsStream i, transport_from s), client_config = client_config c\<rparr>))"

definition client_add_tls_from_config ::
  "('kp, 'params, 'cert, 'rc, 'ru, 'acc, 'conn) pki \<Rightarrow> ('conn \<Rightarrow> string \<Rightarrow> stream \<Rightarrow> io_error + stream)
    \<Rightarrow> string \<Rightarrow> string option \<Rightarrow> fs \<Rightarrow> (id_stream \<times> StreamTransport) UpgradeWebRTCClient
    \<Rightarrow> (('rc, 'ru) TlsInitError, (id_stream \<times> StreamTransport) UpgradeWebRTCClient) res \<times> fs" where
  "client_add_tls_from_config pki connect domain root_cert_path s c =
     and_then (new_tls_connector pki root_cert_path s) (\<lambda>connector s.
     (try_map Tls_IOError (client_add_tls (connect connector domain) c), s))"

datatype 'ae TlsAcceptError = Tls_AcceptError 'ae | TlsAccept_IOError io_error

fun tls_accept_error_display :: "('ae \<Rightarrow> string) \<Rightarrow> (io_error \<Rightarrow> string) \<Rightarrow> 'ae TlsAcceptError \<Rightarrow> string" where
  "tls_accept_error_display sa si (Tls_AcceptError e) = sa e"
| "tls_accept_error_display sa si (TlsAccept_IOError e) = si e"

text \<open>\<open>accept\<close> of \<open>TlsUpgradeTransportServer\<close>, from the result of the inner \<open>accept\<close>.\<close>

definition tls_accept ::
  "(stream \<Rightarrow> io_error + stream) \<Rightarrow> 'ae + (id_stream \<times> StreamTransport)
    \<Rightarrow> 'ae TlsAcceptError + (id_stream \<times> StreamTransport)" where
  "tls_accept handshake accepted = (case accepted of
      Inl e \<Rightarrow> Inl (Tls_AcceptError e)
    | Inr (i, t) \<Rightarrow> (case handshake (stream t) of
          Inl e \<Rightarrow> Inl (TlsAccept_IOError e)
        | Inr s \<Rightarrow> Inr (ServerTlsStream i, transport_from s)))"

text \<open>\<open>add_tls\<close> of the server pairs the inner server with the acceptor;
  \<open>add_tls_from_config\<close> hands the server back on an error.\<close>

definition server_add_tls :: "'acc \<Rightarrow> 's UpgradeWebRTCServer \<Rightarrow> ('s \<times> 'acc) UpgradeWebRTCServer" where
  "server_add_tls acceptor s = \<lparr>server = (server s, acceptor), server_config = server_config s\<rparr>"

definition server_add_tls_from_config ::
  "('kp, 'params, 'cert, 'rc, 'ru, 'acc, 'conn) pki \<Rightarrow> TlsServerConfig \<Rightarrow> fs \<Rightarrow> 's UpgradeWebRTCServer
    \<Rightarrow> ((('rc, 'ru) TlsInitError \<times> 's UpgradeWebRTCServer), ('s \<times> 'acc) UpgradeWebRTCServer) res \<times> fs" where
  "server_add_tls_from_config pki config s srv =
     (case new_tls_acceptor pki config s of
        (r, s') \<Rightarrow> (map_res (\<lambda>e. (e, srv)) (\<lambda>acceptor. server_add_tls acceptor srv) r, s'))"

section \<open>The accept loop\<close>

text \<open>
  \<open>Reporting\<close>: the loop waits for an \<open>on_err\<close> that is pending; \<open>Crashed\<close>: a panic of \<open>on_err\<close> has
  unwound it.
\<close>

datatype run_phase = Accepting | Reporting | Aborting | Joining | Returned | Crashed

datatype task_state = Running | AbortRequested | Done

record run_state =
  phase :: run_phase
  running_tasks :: "task_state list"
  close_queue :: nat
  close_calls :: nat
  err_calls :: nat

definition run_init :: run_state where
  "run_init = \<lparr>phase = Accepting, running_tasks = [], close_queue = 0, close_calls = 0, err_calls = 0\<rparr>"

text \<open>
  \<open>ServerHandle::close_server\<close>: a \<open>try_send\<close> on a channel of capacity one whose error is ignored
  (the channel may be full, or its receiver gone).
\<close>

definition close_server :: "run_state \<Rightarrow> run_state" where
  "close_server s = s\<lparr>close_calls := close_calls s + 1,
     close_queue := (if close_queue s < 1 \<and> phase s \<notin> {Returned, Crashed} then close_queue s + 1
       else close_queue s)\<rparr>"

text \<open>\<open>server.accept()\<close> returned a transport: a task is spawned and kept.\<close>

definition accept_ok :: "run_state \<Rightarrow> run_state" where
  "accept_ok s = s\<lparr>running_tasks := running_tasks s @ [Running]\<rparr>"

text \<open>
  It returned an error: \<open>on_err\<close> is awaited in the loop itself. The loop goes on when it returns, unwinds
  with its panic, and waits for it as long as it is pending.
\<close>

definition after_on_err :: "(unit, unit) res \<Rightarrow> run_phase" where
  "after_on_err hook = (case hook of Panicked \<Rightarrow> Crashed | Blocked \<Rightarrow> Reporting | _ \<Rightarrow> Accepting)"

definition accept_err :: "(unit, unit) res \<Rightarrow> run_state \<Rightarrow> run_state" where
  "accept_err hook s = s\<lparr>err_calls := err_calls s + 1, phase := after_on_err hook\<rparr>"

definition resume_err :: "(unit, unit) res \<Rightarrow> run_state \<Rightarrow> run_state" where
  "resume_err hook s = s\<lparr>phase := after_on_err hook\<rparr>"

text \<open>\<open>close_recv.recv()\<close> was ready: the loop is left.\<close>

definition take_close :: "run_state \<Rightarrow> run_state" where
  "take_close s = s\<lparr>close_queue := close_queue s - 1, phase := Aborting\<rparr>"

definition abort_task :: "task_state \<Rightarrow> task_state" where
  "abort_task t = (if t = Running then AbortRequested else t)"

definition abort_all :: "run_state \<Rightarrow> run_state" where
  "abort_all s = s\<lparr>running_tasks := map abort_task (running_tasks s), phase := Joining\<rparr>"

text \<open>A task ends by itself (it returned or panicked) or because it was aborted.\<close>

definition end_task :: "nat \<Rightarrow> run_state \<Rightarrow> run_state" where
  "end_task i s = s\<lparr>running_tasks := (running_tasks s)[i := Done]\<rparr>"

definition return_run :: "run_state \<Rightarrow> run_state" where
  "return_run s = s\<lparr>phase := Returned\<rparr>"

inductive run_step :: "run_state \<Rightarrow> run_state \<Rightarrow> bool" where
  step_close_call: "run_step s (close_server s)"
| step_accept_ok: "phase s = Accepting \<Longrightarrow> run_step s (accept_ok s)"
| step_accept_err: "phase s = Accepting \<Longrightarrow> run_step s (accept_err hook s)"
| step_resume_err: "phase s = Reporting \<Longrightarrow> run_step s (resume_err hook s)"
| step_take_close: "phase s = Accepting \<Longrightarrow> 0 < close_queue s \<Longrightarrow> run_step s (take_close s)"
| step_abort_all: "phase s = Aborting \<Longrightarrow> run_step s (abort_all s)"
| step_end_task: "i < length (running_tasks s) \<Longrightarrow> run_step s (end_task i s)"
| step_return: "phase s = Joining \<Longrightarrow> (\<forall>t \<in> set (running_tasks s). t = Done) \<Longrightarrow> run_step s (return_run s)"

inductive_cases run_stepE: "run_step s t"

lemmas run_op_defs = close_server_def accept_ok_def accept_err_def resume_err_def after_on_err_def take_close_def abort_all_def
  end_task_def return_run_def

section \<open>The phases are ordered\<close>

text \<open>Accepting and waiting for \<open>on_err\<close> alternate; otherwise the phases follow one another.\<close>

fun phase_rank :: "run_phase \<Rightarrow> nat" where
  "phase_rank Accepting = 0"
| "phase_rank Reporting = 0"
| "phase_rank Aborting = 1"
| "phase_rank Joining = 2"
| "phase_rank Returned = 3"
| "phase_rank Crashed = 4"

instantiation run_phase :: preorder
begin

definition less_eq_run_phase :: "run_phase \<Rightarrow> run_phase \<Rightarrow> bool" where
  "less_eq_run_phase p q \<longleftrightarrow> phase_rank p \<le> phase_rank q"

definition less_run_phase :: "run_phase \<Rightarrow> run_phase \<Rightarrow> bool" where
  "less_run_phase p q \<longleftrightarrow> phase_rank p < phase_rank q"

instance
  by standard (auto simp: less_eq_run_phase_def less_run_phase_def)

end

section \<open>The invariant of the loop\<close>

definition run_inv :: "run_state \<Rightarrow> bool" where
  "run_inv s \<longleftrightarrow> close_queue s \<le> 1
     \<and> (0 < close_queue s \<or> phase s \<in> {Aborting, Joining, Returned} \<longrightarrow> 0 < close_calls s)
     \<and> (phase s \<in> {Joining, Returned} \<longrightarrow> Running \<notin> set (running_tasks s))
     \<and> (phase s = Returned \<longrightarrow> set (running_tasks s) \<subseteq> {Done})"

lemma run_inv_init: "run_inv run_init"
  by (simp add: run_inv_def run_init_def)

lemma set_update_Done: "set (xs[i := Done]) \<subseteq> insert Done (set xs)"
  by (rule set_update_subset_insert)

lemma run_inv_end_task: "run_inv s \<Longrightarrow> run_inv (end_task i s)"
  using set_update_Done [of "running_tasks s" i] by (auto simp: run_inv_def end_task_def)

lemma run_inv_step: "run_inv s \<Longrightarrow> run_step s t \<Longrightarrow> run_inv t"
proof (erule run_stepE)
  fix i assume "run_inv s" "t = end_task i s"
  then show "run_inv t" by (simp add: run_inv_end_task)
qed (auto simp: run_inv_def run_op_defs abort_task_def split: res.splits)

interpretation accept_loop: inductive_system "\<lambda>s. s = run_init" run_step run_inv
  by unfold_locales (auto simp: run_inv_init intro: run_inv_step)

lemma run_step_phase: "run_step s t \<Longrightarrow> phase s \<le> phase t"
  by (erule run_stepE) (auto simp: run_op_defs less_eq_run_phase_def split: res.splits)

text \<open>Joining: ending the tasks one by one leads to the return.\<close>

lemma join_all:
  assumes "phase s = Joining"
  shows "\<exists>t. run_step\<^sup>*\<^sup>* s t \<and> phase t = Returned"
  using assms
proof (induction "length (filter (\<lambda>t. t \<noteq> Done) (running_tasks s))" arbitrary: s rule: less_induct)
  case less
  show ?case
  proof (cases "\<exists>i < length (running_tasks s). running_tasks s ! i \<noteq> Done")
    case True
    then obtain i where i: "i < length (running_tasks s)" "running_tasks s ! i \<noteq> Done" by blast
    let ?ts = "running_tasks s"
    have "length (filter (\<lambda>t. t \<noteq> Done) ?ts) = length (filter (\<lambda>t. t \<noteq> Done) (take i ?ts)) + 1
        + length (filter (\<lambda>t. t \<noteq> Done) (drop (Suc i) ?ts))"
      by (subst id_take_nth_drop [OF i(1)]) (simp add: i(2))
    moreover have "length (filter (\<lambda>t. t \<noteq> Done) (?ts[i := Done]))
        = length (filter (\<lambda>t. t \<noteq> Done) (take i ?ts)) + length (filter (\<lambda>t. t \<noteq> Done) (drop (Suc i) ?ts))"
      using i(1) by (simp add: upd_conv_take_nth_drop)
    ultimately have "length (filter (\<lambda>t. t \<noteq> Done) (?ts[i := Done])) < length (filter (\<lambda>t. t \<noteq> Done) ?ts)"
      by simp
    then have "\<exists>t. run_step\<^sup>*\<^sup>* (end_task i s) t \<and> phase t = Returned"
      using less.prems by (intro less.hyps) (simp_all add: end_task_def)
    moreover have "run_step s (end_task i s)" using i(1) by (rule step_end_task)
    ultimately show ?thesis by (meson converse_rtranclp_into_rtranclp)
  next
    case False
    then have "run_step s (return_run s)"
      using less.prems by (intro step_return) (auto simp: in_set_conv_nth)
    then show ?thesis by (intro exI [of _ "return_run s"]) (simp add: return_run_def r_into_rtranclp)
  qed
qed

section \<open>Properties of the accept loop\<close>

text \<open>
  C10: The server stops only on request and stops completely. In every run of the accept loop, whatever
  the interleaving of accepts, errors, task ends and close calls: \<open>run\<close> has returned only after some
  \<open>close_server\<close> call, and then every task it ever spawned has ended; the close channel never holds
  more than one message.
\<close>

theorem run_returns_only_closed:
  assumes "reach (\<lambda>s. s = run_init) run_step s"
  shows "close_queue s \<le> 1
    \<and> (phase s = Returned \<longrightarrow> 0 < close_calls s \<and> (\<forall>t \<in> set (running_tasks s). t = Done))"
  using accept_loop.reach_good [OF assms] by (auto simp: run_inv_def)

theorem run_returns_only_closed_witness:
  "\<exists>s. s = return_run (end_task 0 (abort_all (take_close (close_server (accept_ok run_init)))))
    \<and> reach (\<lambda>s. s = run_init) run_step s \<and> phase s = Returned \<and> running_tasks s = [Done]
    \<and> close_queue s \<le> 1 \<and> 0 < close_calls s"
proof -
  let ?s = "return_run (end_task 0 (abort_all (take_close (close_server (accept_ok run_init)))))"
  have 0: "reach (\<lambda>s. s = run_init) run_step run_init" by (rule reach_init) simp
  have 1: "reach (\<lambda>s. s = run_init) run_step (accept_ok run_init)"
    by (rule reach_step [OF 0], rule step_accept_ok) (simp add: run_init_def)
  note 2 = reach_step [OF 1 step_close_call]
  have 3: "reach (\<lambda>s. s = run_init) run_step (take_close (close_server (accept_ok run_init)))"
    by (rule reach_step [OF 2], rule step_take_close) (simp_all add: run_init_def run_op_defs)
  have 4: "reach (\<lambda>s. s = run_init) run_step (abort_all (take_close (close_server (accept_ok run_init))))"
    by (rule reach_step [OF 3], rule step_abort_all) (simp add: run_op_defs)
  have 5: "reach (\<lambda>s. s = run_init) run_step (end_task 0 (abort_all (take_close (close_server (accept_ok run_init)))))"
    by (rule reach_step [OF 4], rule step_end_task) (simp add: run_init_def run_op_defs)
  have 6: "reach (\<lambda>s. s = run_init) run_step ?s"
    by (rule reach_step [OF 5], rule step_return) (simp_all add: run_init_def run_op_defs)
  from run_returns_only_closed [OF this] have "close_queue ?s \<le> 1" "0 < close_calls ?s"
    by (simp_all add: return_run_def)
  moreover have "phase ?s = Returned" "running_tasks ?s = [Done]"
    by (simp_all add: run_init_def run_op_defs)
  ultimately show ?thesis using 6 by blast
qed

text \<open>
  The phases of the loop never go back: accepting, aborting, joining, returned; a loop that a
  panicking \<open>on_err\<close> has unwound stays so.
\<close>

theorem run_phase_monotone:
  assumes "reach (\<lambda>s. s = run_init) run_step s" and "run_step\<^sup>*\<^sup>* s t"
  shows "phase s \<le> phase t"
  using accept_loop.step_mono_reach [of phase s t] run_step_phase accept_loop.reach_good assms by blast

theorem run_phase_monotone_witness:
  "phase (close_server run_init) \<le> phase (abort_all (take_close (close_server run_init)))"
proof (rule run_phase_monotone)
  show "reach (\<lambda>s. s = run_init) run_step (close_server run_init)"
    by (rule reach_step, rule reach_init, rule refl, rule step_close_call)
  have "run_step (close_server run_init) (take_close (close_server run_init))"
    by (rule step_take_close) (simp_all add: run_init_def run_op_defs)
  moreover have "run_step (take_close (close_server run_init)) (abort_all (take_close (close_server run_init)))"
    by (rule step_abort_all) (simp add: take_close_def)
  ultimately show "run_step\<^sup>*\<^sup>* (close_server run_init) (abort_all (take_close (close_server run_init)))"
    by (meson converse_rtranclp_into_rtranclp rtranclp.rtrancl_refl)
qed

text \<open>
  C20: A call of \<open>close_server\<close> while the loop is accepting takes effect: the request is in the channel
  (also when an earlier one is still there), and the loop can go on to abort all its tasks, wait for
  them and return.
\<close>

theorem close_server_returns:
  assumes "reach (\<lambda>s. s = run_init) run_step s" and "phase s = Accepting"
  shows "close_queue (close_server s) = 1 \<and> (\<exists>t. run_step\<^sup>*\<^sup>* (close_server s) t \<and> phase t = Returned)"
proof -
  let ?c = "close_server s"
  from accept_loop.reach_good [OF assms(1)] assms(2) have q: "close_queue ?c = 1" "phase ?c = Accepting"
    by (auto simp: run_inv_def close_server_def)
  then have "run_step ?c (take_close ?c)" by (intro step_take_close) simp_all
  moreover have "run_step (take_close ?c) (abort_all (take_close ?c))"
    by (rule step_abort_all) (simp add: take_close_def)
  moreover obtain t where "run_step\<^sup>*\<^sup>* (abort_all (take_close ?c)) t" "phase t = Returned"
    using join_all [of "abort_all (take_close ?c)"] by (auto simp: abort_all_def)
  ultimately have "run_step\<^sup>*\<^sup>* ?c t" by (meson converse_rtranclp_into_rtranclp)
  with q \<open>phase t = Returned\<close> show ?thesis by blast
qed

theorem close_server_returns_witness:
  "close_queue (close_server (accept_ok run_init)) = 1
    \<and> (\<exists>t. run_step\<^sup>*\<^sup>* (close_server (accept_ok run_init)) t \<and> phase t = Returned)"
proof (rule close_server_returns)
  show "reach (\<lambda>s. s = run_init) run_step (accept_ok run_init)"
    by (rule reach_step, rule reach_init, rule refl, rule step_accept_ok) (simp add: run_init_def)
qed (simp add: accept_ok_def run_init_def)

section \<open>Listeners\<close>

text \<open>
  The contract of an implementation of \<open>UpgradeTransportServer\<close>: an accepted transport starts with
  an empty buffer and is identified as the socket underneath. The TLS wrapper keeps the contract of
  the listener it wraps.
\<close>

locale listener =
  fixes accept :: "'raw \<Rightarrow> 'ae + (id_stream \<times> StreamTransport)" and socket :: "'raw \<Rightarrow> id_stream option"
  assumes fresh: "accept r = Inr (i, t) \<Longrightarrow> recv_buffer t = []"
    and same_id: "accept r = Inr (i, t) \<Longrightarrow> \<exists>j. socket r = Some j \<and> get_id show_err i = get_id show_err j"
begin

lemma tls_listener:
  assumes "tls_accept handshake (accept r) = Inr (i, t)"
  shows "recv_buffer t = []" and "\<exists>j. socket r = Some j \<and> get_id show_err i = get_id show_err j"
  using assms
  by (auto simp: tls_accept_def transport_from_def split: sum.splits prod.splits dest: same_id [of r _ _ show_err])

end

definition socket_of :: "io_error + (id_stream \<times> stream) \<Rightarrow> id_stream option" where
  "socket_of r = (case r of Inl _ \<Rightarrow> None | Inr (i, _) \<Rightarrow> Some i)"

interpretation tcp: listener tcp_accept socket_of
  by unfold_locales (auto simp: tcp_accept_def socket_of_def transport_from_def map_sum_def split: sum.splits prod.splits)

interpretation local_socket: listener local_socket_accept socket_of
  by unfold_locales (auto simp: local_socket_accept_def socket_of_def transport_from_def map_sum_def split: sum.splits prod.splits)

interpretation tls_tcp: listener "\<lambda>r. tls_accept handshake (tcp_accept r)" socket_of for handshake
  by unfold_locales (auto dest: tcp.tls_listener)

interpretation tls_local_socket: listener "\<lambda>r. tls_accept handshake (local_socket_accept r)" socket_of for handshake
  by unfold_locales (auto dest: local_socket.tls_listener)

text \<open>
  C21: Every listener of the crate, TCP or local socket, plain or behind TLS, accepts transports that
  start with an empty receive buffer and report the identity of the accepted socket through all
  wrappers, so that an error of a client names that client.
\<close>

theorem listeners_conform:
  assumes "accept \<in> {map_sum Tls_AcceptError id \<circ> tcp_accept, map_sum Tls_AcceptError id \<circ> local_socket_accept,
      tls_accept handshake \<circ> tcp_accept, tls_accept handshake \<circ> local_socket_accept}"
    and "accept r = Inr (i, t)"
  shows "recv_buffer t = [] \<and> (\<exists>j. socket_of r = Some j \<and> get_id show_err i = get_id show_err j)"
  using assms tcp.fresh tcp.same_id [of r i t show_err] local_socket.fresh local_socket.same_id [of r i t show_err]
    tls_tcp.fresh tls_tcp.same_id [of handshake r i t show_err]
    tls_local_socket.fresh tls_local_socket.same_id [of handshake r i t show_err]
  by (auto simp: map_sum_def split: sum.splits)

theorem listeners_conform_witness:
  "recv_buffer (transport_from (idle_stream [] [])) = []
    \<and> (\<exists>j. socket_of (Inr (TcpStream (Inr ''10.0.0.1:9''), idle_stream [] [])) = Some j
        \<and> get_id (\<lambda>e. []) (ServerTlsStream (BufStream (TcpStream (Inr ''10.0.0.1:9'')))) = get_id (\<lambda>e. []) j)"
  by (rule listeners_conform [of "tls_accept Inr \<circ> tcp_accept" Inr])
    (simp_all add: tls_accept_def tcp_accept_def transport_from_def)

text \<open>
  Adding TLS keeps the endpoint's configuration and never loses the server: on an error
  \<open>add_tls_from_config\<close> returns the very server it was given, and on success the same listener and
  configuration with the acceptor added; the client keeps its configuration and restarts with an
  empty buffer on the encrypted stream.
\<close>

theorem add_tls_keeps_endpoint:
  "(case fst (server_add_tls_from_config pki config s srv) of
      Ok srv' \<Rightarrow> fst (server srv') = server srv \<and> server_config srv' = server_config srv
    | Err (e, srv') \<Rightarrow> srv' = srv
    | _ \<Rightarrow> False)
   \<and> (case client_add_tls connect c of
        Inl e \<Rightarrow> connect (stream (snd (client c))) = Inl e
      | Inr c' \<Rightarrow> client_config c' = client_config c \<and> recv_buffer (snd (client c')) = [])"
proof -
  obtain r s' where r: "new_tls_acceptor pki config s = (r, s')" by (cases "new_tls_acceptor pki config s")
  with new_tls_acceptor_settled [of pki config s] have "settled r" by simp
  then show ?thesis
    by (cases r) (auto simp: r server_add_tls_from_config_def server_add_tls_def client_add_tls_def
        transport_from_def split: prod.splits sum.splits)
qed

end
