(* ===== verification/Tunnel_Server.thy ===== *)
theory Tunnel_Server
  imports Tunnel_Config Server_Run
begin

text \<open>
  The server of the tunnel, \<open>webrtc-tunnel/src/server.rs\<close>: the callback that serves the data channels
  of a connection, and the command that reads the configuration, binds the listener and runs the
  accept loop of \<open>upgrade2webrtc\<close>. Local sockets and data channels are an environment: every awaited
  call is a function of the effects so far, \<open>select!\<close> takes what the environment says is ready.
\<close>

section \<open>Data\<close>

record ServerConfig =
  cfg_root_cert_chain_path :: string
  cfg_parent_key_path :: string
  cfg_subject_alt_names :: "string list"
  cfg_create_if_missing :: bool
  cfg_channels :: "Channel list"

datatype ServerStreamType = Server_TCP string | Server_LocalSocket string

record data_channel =
  dc_label :: string
  dc_protocol :: string

text \<open>What a \<open>select!\<close> of a session takes: a read of the local socket or a message of the channel.\<close>

datatype session_event = SocketReady "io_error + bytes" | MessageReady "bytes option"

datatype tunnel_action =
    RecvChannel data_channel
  | CloseChannel data_channel
  | UdpBind
  | UdpConnect u16
  | TcpConnect u16
  | OnMessage data_channel
  | Selected session_event
  | ChannelSend data_channel bytes
  | SocketTook bytes
  | SocketWriteAll bytes
  | SocketFlush

record 'werr server_io =
  udp_bind :: "tunnel_action list \<Rightarrow> (io_error, unit) res"
  udp_connect :: "u16 \<Rightarrow> tunnel_action list \<Rightarrow> (io_error, unit) res"
  tcp_connect :: "u16 \<Rightarrow> tunnel_action list \<Rightarrow> (io_error, unit) res"
  select_ready :: "tunnel_action list \<Rightarrow> session_event option"
  channel_send :: "data_channel \<Rightarrow> bytes \<Rightarrow> tunnel_action list \<Rightarrow> ('werr, nat) res"
  channel_close :: "data_channel \<Rightarrow> tunnel_action list \<Rightarrow> ('werr, unit) res"
  socket_sends :: "bytes \<Rightarrow> tunnel_action list \<Rightarrow> (io_error + nat) list"
  socket_write_all :: "bytes \<Rightarrow> tunnel_action list \<Rightarrow> (io_error, unit) res"
  socket_flush :: "tunnel_action list \<Rightarrow> (io_error, unit) res"

section \<open>Sessions\<close>

text \<open>The bytes of one read go to the data channel; \<open>debug_assert_eq!\<close> checks the count it took.\<close>

definition forward_to_channel ::
  "'werr server_io \<Rightarrow> target \<Rightarrow> data_channel \<Rightarrow> bytes \<Rightarrow> tunnel_action list
    \<Rightarrow> (io_error, unit) res \<times> tunnel_action list" where
  "forward_to_channel io tgt dc buf h =
     and_then (or_panic (ChannelSend dc buf) (channel_send io dc buf) h) (\<lambda>x h.
     if debug_build tgt \<and> x \<noteq> length buf then (Panicked, h) else (Ok (), h))"

text \<open>
  A session on a UDP channel: a socket on a free local port connected to the service, then one round
  of \<open>select!\<close>. A datagram longer than the buffer is cut off by the socket.
\<close>

definition udp_session ::
  "'werr server_io \<Rightarrow> target \<Rightarrow> u16 \<Rightarrow> data_channel \<Rightarrow> tunnel_action list
    \<Rightarrow> (io_error, unit) res \<times> tunnel_action list" where
  "udp_session io tgt port dc h =
     and_then (or_panic UdpBind (udp_bind io) h) (\<lambda>_ h.
     and_then (or_panic (UdpConnect port) (udp_connect io port) h) (\<lambda>_ h.
     let h = h @ [OnMessage dc] in
     case select_ready io h of
       None \<Rightarrow> (Blocked, h)
     | Some ev \<Rightarrow> let h = h @ [Selected ev] in
         (case ev of
            SocketReady (Inl e) \<Rightarrow> (Panicked, h)
          | SocketReady (Inr datagram) \<Rightarrow> forward_to_channel io tgt dc (take UDP_PACKET_SIZE datagram) h
          | MessageReady None \<Rightarrow> (Panicked, h)
          | MessageReady (Some msg) \<Rightarrow>
              (case send_loop (\<lambda>sent_n. sent_n) msg 0 (socket_sends io msg h) of
                 (r, chunks) \<Rightarrow> (r, h @ map SocketTook chunks)))))"

text \<open>A session on a TCP channel: a read takes at most 2048 bytes off the stream.\<close>

definition tcp_session ::
  "'werr server_io \<Rightarrow> target \<Rightarrow> u16 \<Rightarrow> data_channel \<Rightarrow> tunnel_action list
    \<Rightarrow> (io_error, unit) res \<times> tunnel_action list" where
  "tcp_session io tgt port dc h =
     and_then (or_panic (TcpConnect port) (tcp_connect io port) h) (\<lambda>_ h.
     let h = h @ [OnMessage dc] in
     case select_ready io h of
       None \<Rightarrow> (Blocked, h)
     | Some ev \<Rightarrow> let h = h @ [Selected ev] in
         (case ev of
            SocketReady (Inl e) \<Rightarrow> (Panicked, h)
          | SocketReady (Inr available) \<Rightarrow> forward_to_channel io tgt dc (take 2048 available) h
          | MessageReady None \<Rightarrow> (Panicked, h)
          | MessageReady (Some msg) \<Rightarrow>
              and_then (or_panic (SocketWriteAll msg) (socket_write_all io msg) h) (\<lambda>_ h.
              or_panic SocketFlush (socket_flush io) h)))"

fun serve_channel ::
  "'werr server_io \<Rightarrow> target \<Rightarrow> Channel \<Rightarrow> data_channel \<Rightarrow> tunnel_action list
    \<Rightarrow> (io_error, unit) res \<times> tunnel_action list" where
  "serve_channel io tgt (Channel_UDP port remap q) dc h = udp_session io tgt port dc h"
| "serve_channel io tgt (Channel_TCP port remap q) dc h = tcp_session io tgt port dc h"
| "serve_channel io tgt (Channel_LocalSocket addr remap q) dc h = (Ok (), h)"

section \<open>The callbacks\<close>

text \<open>
  \<open>on_success\<close>: the loop over the data channels that the peer opens. \<open>None\<close> is the end of the
  receiver, at which the loop breaks; a channel whose protocol is not in the table is closed.
\<close>

fun tunnel_on_success ::
  "'werr server_io \<Rightarrow> target \<Rightarrow> (string \<rightharpoonup> Channel) \<Rightarrow> data_channel option list \<Rightarrow> tunnel_action list
    \<Rightarrow> (io_error, unit) res \<times> tunnel_action list" where
  "tunnel_on_success io tgt allowed [] h = (Blocked, h)"
| "tunnel_on_success io tgt allowed (None # arrivals) h = (Ok (), h)"
| "tunnel_on_success io tgt allowed (Some dc # arrivals) h =
     (case allowed (dc_protocol dc) of
        None \<Rightarrow>
          and_then (settle (channel_close io dc (h @ [RecvChannel dc])), h @ [RecvChannel dc, CloseChannel dc])
          (\<lambda>_ h. tunnel_on_success io tgt allowed arrivals h)
      | Some channel \<Rightarrow>
          and_then (serve_channel io tgt channel dc (h @ [RecvChannel dc]))
          (\<lambda>_ h. tunnel_on_success io tgt allowed arrivals h))"

text \<open>\<open>on_err!()\<close> panics whatever the error.\<close>

definition tunnel_on_err :: "'err \<Rightarrow> ('f, unit) res" where
  "tunnel_on_err e = Panicked"

text \<open>The callbacks as \<open>run\<close> of \<open>upgrade2webrtc\<close> calls them. \<open>arrivals\<close> are the data channels that
  the peer of a connection opens.\<close>

definition tunnel_hooks ::
  "'werr server_io \<Rightarrow> target \<Rightarrow> (string \<rightharpoonup> Channel)
    \<Rightarrow> (('sdp, 'cand, 'init, 'err) history \<Rightarrow> data_channel option list)
    \<Rightarrow> (('sdp, 'cand, 'init, 'err) history \<Rightarrow> ('werr, unit) res)
    \<Rightarrow> ('sdp, 'cand, 'init, 'werr, 'err) server_hooks" where
  "tunnel_hooks io tgt allowed arrivals close =
     \<lparr>on_success_hook = (\<lambda>h. settle (fst (tunnel_on_success io tgt allowed (arrivals h) []))),
      on_err_hook = (\<lambda>e h. tunnel_on_err e), peer_close = close\<rparr>"

section \<open>The accept loop of the tunnel\<close>

text \<open>
  The accept loop of \<open>run\<close> with these callbacks. Both ignore the handle they are given and no other
  code of the tunnel has one, so there is no call of \<open>close_server\<close>.
\<close>

inductive tunnel_run_step :: "run_state \<Rightarrow> run_state \<Rightarrow> bool" where
  tunnel_accept_ok: "phase s = Accepting \<Longrightarrow> tunnel_run_step s (accept_ok s)"
| tunnel_accept_err: "phase s = Accepting
    \<Longrightarrow> tunnel_run_step s (accept_err (tunnel_on_err (e :: io_error TlsAcceptError)) s)"
| tunnel_end_task: "i < length (running_tasks s) \<Longrightarrow> tunnel_run_step s (end_task i s)"

inductive_cases tunnel_run_stepE: "tunnel_run_step s t"

definition run_outcome :: "run_state \<Rightarrow> ('e, unit) res" where
  "run_outcome rs = (case phase rs of Returned \<Rightarrow> Ok () | Crashed \<Rightarrow> Panicked | _ \<Rightarrow> Blocked)"

section \<open>The command\<close>

text \<open>
  \<open>toml\<close> is the deserialiser of the \<open>toml\<close> crate, \<open>bind_tcp\<close> and \<open>bind_local\<close> the calls that bind a
  listener, and \<open>run l acceptor allowed\<close> the state that the accept loop on listener \<open>l\<close>, with TLS if there
  is an acceptor and with the callbacks over the table \<open>allowed\<close>, has reached.
\<close>

definition tls_server_config :: "ServerConfig \<Rightarrow> TlsServerConfig" where
  "tls_server_config config =
     \<lparr>root_cert_chain_path = cfg_root_cert_chain_path config, parent_key_path = cfg_parent_key_path config,
      subject_alt_names = cfg_subject_alt_names config, create_if_missing = cfg_create_if_missing config\<rparr>"

type_synonym ('te, 'rc, 'ru) server_anyhow = "('te, 'rc, 'ru, unit, unit) anyhow_error"

definition server_command ::
  "('kp, 'params, 'cert, 'rc, 'ru, 'acc, 'conn) pki \<Rightarrow> (string \<Rightarrow> 'te + ServerConfig)
    \<Rightarrow> (string \<Rightarrow> io_error + 'l) \<Rightarrow> (string \<Rightarrow> io_error + 'l) \<Rightarrow> ('l \<Rightarrow> 'acc option \<Rightarrow> (string \<rightharpoonup> Channel) \<Rightarrow> run_state)
    \<Rightarrow> ServerStreamType \<Rightarrow> string \<Rightarrow> fs \<Rightarrow> (('te, 'rc, 'ru) server_anyhow, unit) res \<times> fs" where
  "server_command pki toml bind_tcp bind_local run stream_type config_path s =
     and_then (try_map Any_Io (read_to_string config_path s), s) (\<lambda>text s.
     and_then (try_map Any_Toml (toml text), s) (\<lambda>config s.
     let allowed = allowed_channels (cfg_channels config); tls_config = tls_server_config config in
     and_then (case stream_type of
         Server_TCP addr \<Rightarrow> (try_map Any_Io (server_new_tcp (bind_tcp addr)), s)
       | Server_LocalSocket addr \<Rightarrow> (try_map Any_Io (server_new_local_socket (bind_local addr)), s)) (\<lambda>srv s.
     if root_cert_chain_path tls_config = []
     then (run_outcome (run (server srv) None allowed), s)
     else
       and_then (apfst (map_res (Any_Tls \<circ> fst) id) (server_add_tls_from_config pki tls_config s srv)) (\<lambda>srv s.
       (run_outcome (run (fst (server srv)) (Some (snd (server srv))) allowed), s)))))"

section \<open>Lemmas\<close>

fun is_selected :: "tunnel_action \<Rightarrow> bool" where
  "is_selected (Selected ev) = True"
| "is_selected _ = False"

fun is_arrival :: "tunnel_action \<Rightarrow> bool" where
  "is_arrival (RecvChannel dc) = True"
| "is_arrival _ = False"

text \<open>What a session adds to the history: at most one round of \<open>select!\<close>, connections to the configured
  port only.\<close>

definition session_effects :: "Channel \<Rightarrow> tunnel_action list \<Rightarrow> bool" where
  "session_effects channel new \<longleftrightarrow>
     (\<forall>p. UdpConnect p \<in> set new \<longrightarrow> (\<exists>r q. channel = Channel_UDP p r q))
     \<and> (\<forall>p. TcpConnect p \<in> set new \<longrightarrow> (\<exists>r q. channel = Channel_TCP p r q))
     \<and> length (filter is_selected new) \<le> 1 \<and> filter is_arrival new = []"

lemma filter_SocketTook [simp]:
  "filter is_selected (map SocketTook cs) = []" "filter is_arrival (map SocketTook cs) = []"
  by (induction cs) simp_all

lemmas session_splits = res.splits prod.splits option.splits session_event.splits sum.splits if_splits

lemma udp_session_effects:
  "\<exists>new. snd (udp_session io tgt port dc h) = h @ new \<and> session_effects (Channel_UDP port r q) new"
  by (auto simp: udp_session_def forward_to_channel_def and_then_def or_panic_def Let_def session_effects_def
      split: session_splits)

lemma tcp_session_effects:
  "\<exists>new. snd (tcp_session io tgt port dc h) = h @ new \<and> session_effects (Channel_TCP port r q) new"
  by (auto simp: tcp_session_def forward_to_channel_def and_then_def or_panic_def Let_def session_effects_def
      split: session_splits)

lemma serve_channel_effects:
  "\<exists>new. snd (serve_channel io tgt channel dc h) = h @ new \<and> session_effects channel new"
  by (cases channel) (simp_all add: udp_session_effects tcp_session_effects, simp add: session_effects_def)

definition routed :: "(string \<rightharpoonup> Channel) \<Rightarrow> data_channel option list \<Rightarrow> Channel set" where
  "routed allowed arrivals = {c. \<exists>dc. Some dc \<in> set arrivals \<and> allowed (dc_protocol dc) = Some c}"

definition connection_effects :: "Channel set \<Rightarrow> tunnel_action list \<Rightarrow> bool" where
  "connection_effects cs new \<longleftrightarrow>
     (\<forall>p. UdpConnect p \<in> set new \<longrightarrow> (\<exists>r q. Channel_UDP p r q \<in> cs))
     \<and> (\<forall>p. TcpConnect p \<in> set new \<longrightarrow> (\<exists>r q. Channel_TCP p r q \<in> cs))
     \<and> length (filter is_selected new) \<le> length (filter is_arrival new)"

lemma connection_effects_Nil: "connection_effects cs []"
  by (simp add: connection_effects_def)

lemma connection_effects_append:
  "connection_effects cs xs \<Longrightarrow> connection_effects cs' ys \<Longrightarrow> connection_effects (cs \<union> cs') (xs @ ys)"
  by (auto simp: connection_effects_def) blast+

lemma connection_effects_session:
  "session_effects c new \<Longrightarrow> connection_effects {c} (RecvChannel dc # new)"
  by (auto simp: connection_effects_def session_effects_def)

lemma connection_effects_mono: "connection_effects cs xs \<Longrightarrow> cs \<subseteq> cs' \<Longrightarrow> connection_effects cs' xs"
  by (auto simp: connection_effects_def) blast+

text \<open>One data channel: its effects are one session's, or its close.\<close>

lemma tunnel_on_success_Cons:
  "\<exists>new. connection_effects (routed allowed [Some dc]) new
    \<and> (snd (tunnel_on_success io tgt allowed (Some dc # arrivals) h) = h @ new
      \<or> snd (tunnel_on_success io tgt allowed (Some dc # arrivals) h)
          = snd (tunnel_on_success io tgt allowed arrivals (h @ new)))"
proof (cases "allowed (dc_protocol dc)")
  case None
  let ?r = "(settle (channel_close io dc (h @ [RecvChannel dc])), h @ [RecvChannel dc, CloseChannel dc])"
  have "connection_effects (routed allowed [Some dc]) [RecvChannel dc, CloseChannel dc]"
    by (simp add: connection_effects_def)
  with None and_then_stops_or_goes_on [of ?r "\<lambda>_ h. tunnel_on_success io tgt allowed arrivals h"]
  show ?thesis by (intro exI [of _ "[RecvChannel dc, CloseChannel dc]"]) simp
next
  case (Some c)
  obtain new where new: "snd (serve_channel io tgt c dc (h @ [RecvChannel dc])) = h @ RecvChannel dc # new"
    "session_effects c new"
    using serve_channel_effects [of io tgt c dc "h @ [RecvChannel dc]"] by auto
  from Some have "routed allowed [Some dc] = {c}" by (auto simp: routed_def)
  with new Some connection_effects_session [of c new dc]
    and_then_stops_or_goes_on [of "serve_channel io tgt c dc (h @ [RecvChannel dc])"
      "\<lambda>_ h. tunnel_on_success io tgt allowed arrivals h"]
  show ?thesis by (intro exI [of _ "RecvChannel dc # new"]) simp
qed

lemma tunnel_on_success_effects:
  "\<exists>new. snd (tunnel_on_success io tgt allowed arrivals h) = h @ new
    \<and> connection_effects (routed allowed arrivals) new"
proof (induction arrivals arbitrary: h)
  case Nil
  then show ?case by (simp add: connection_effects_Nil)
next
  case (Cons a arrivals)
  show ?case
  proof (cases a)
    case None
    then show ?thesis by (simp add: connection_effects_Nil)
  next
    case (Some dc)
    have sub: "routed allowed [Some dc] \<union> routed allowed arrivals = routed allowed (a # arrivals)"
      using Some by (auto simp: routed_def)
    obtain new where new: "connection_effects (routed allowed [Some dc]) new"
      "snd (tunnel_on_success io tgt allowed (a # arrivals) h) = h @ new
        \<or> snd (tunnel_on_success io tgt allowed (a # arrivals) h)
            = snd (tunnel_on_success io tgt allowed arrivals (h @ new))"
      using tunnel_on_success_Cons [of allowed dc io tgt arrivals h] Some by blast
    obtain more_new where "snd (tunnel_on_success io tgt allowed arrivals (h @ new)) = (h @ new) @ more_new"
      "connection_effects (routed allowed arrivals) more_new"
      using Cons.IH by blast
    with new connection_effects_append [OF new(1), of "routed allowed arrivals"] connection_effects_mono [OF new(1)]
    show ?thesis unfolding sub [symmetric] by (metis append_assoc sup_ge1)
  qed
qed

section \<open>Properties of the connections\<close>

text \<open>
  C22: The server connects only to configured services. Whatever data channels the peer opens and
  whatever the sockets do, every local port that the callback connects to over TCP (UDP) is the port of
  a configured TCP (UDP) channel, for whose key the peer opened a data channel.
\<close>

theorem tunnel_connects_only_to_configured:
  "{p. TcpConnect p \<in> set (snd (tunnel_on_success io tgt (allowed_channels channels) arrivals []))}
     \<subseteq> {p. \<exists>dc r q. Channel_TCP p r q \<in> set channels \<and> Some dc \<in> set arrivals
            \<and> dc_protocol dc = channel_key (Channel_TCP p r q)}
   \<and> {p. UdpConnect p \<in> set (snd (tunnel_on_success io tgt (allowed_channels channels) arrivals []))}
     \<subseteq> {p. \<exists>dc r q. Channel_UDP p r q \<in> set channels \<and> Some dc \<in> set arrivals
            \<and> dc_protocol dc = channel_key (Channel_UDP p r q)}"
proof -
  obtain new where "snd (tunnel_on_success io tgt (allowed_channels channels) arrivals []) = new"
    "connection_effects (routed (allowed_channels channels) arrivals) new"
    using tunnel_on_success_effects [of io tgt "allowed_channels channels" arrivals "[]"] by auto
  then show ?thesis
    by (fastforce simp: connection_effects_def routed_def dest: allowed_channels_member)
qed

text \<open>
  C35: A data channel carries at most one chunk. The \<open>select!\<close> of a session is not in a loop: over all
  sessions of a connection there are at most as many reads and messages taken, together and in both
  directions, as data channels, so a request and its reply never both pass through one data channel.
\<close>

theorem tunnel_one_chunk_per_channel:
  "length (filter is_selected (snd (tunnel_on_success io tgt allowed arrivals [])))
     \<le> length (filter is_arrival (snd (tunnel_on_success io tgt allowed arrivals [])))"
  using tunnel_on_success_effects [of io tgt allowed arrivals "[]"] by (auto simp: connection_effects_def)

text \<open>What a session that returns has done after its connection, by what its \<open>select!\<close> took.\<close>

fun forwarded :: "nat \<Rightarrow> data_channel \<Rightarrow> session_event \<Rightarrow> tunnel_action list \<Rightarrow> bool" where
  "forwarded cap dc (SocketReady (Inr read)) done \<longleftrightarrow> done = [ChannelSend dc (take cap read)]"
| "forwarded cap dc (MessageReady (Some msg)) done \<longleftrightarrow>
     (\<exists>chunks. done = map SocketTook chunks \<and> concat chunks = msg) \<or> done = [SocketWriteAll msg, SocketFlush]"
| "forwarded cap dc _ done \<longleftrightarrow> False"

lemma udp_session_Ok:
  assumes "udp_session io tgt port dc h = (Ok (), h')"
    and "\<And>msg h. honest_sends (\<lambda>n. n) msg 0 (socket_sends io msg h)"
  shows "\<exists>ev done. h' = h @ [UdpBind, UdpConnect port, OnMessage dc, Selected ev] @ done
    \<and> forwarded UDP_PACKET_SIZE dc ev done"
proof -
  let ?h = "h @ [UdpBind, UdpConnect port, OnMessage dc]"
  from assms(1) obtain ev where ev: "select_ready io ?h = Some ev"
    by (auto simp: udp_session_def Let_def split: option.splits)
  show ?thesis
  proof (cases "(UDP_PACKET_SIZE, dc, ev, [] :: tunnel_action list)" rule: forwarded.cases)
    case (1 cap dc' datagram d)
    with assms(1) ev show ?thesis by (auto simp: udp_session_def forward_to_channel_def Let_def split: if_splits)
  next
    case (2 cap dc' msg d)
    with assms(1) ev obtain chunks where
      "send_loop (\<lambda>n. n) msg 0 (socket_sends io msg (?h @ [Selected ev])) = (Ok (), chunks)"
      "h' = h @ [UdpBind, UdpConnect port, OnMessage dc, Selected ev] @ map SocketTook chunks"
      by (auto simp: udp_session_def Let_def split: prod.splits)
    with 2 send_loop_whole [OF _ assms(2)] show ?thesis by fastforce
  qed (use assms(1) ev in \<open>auto simp: udp_session_def Let_def\<close>)
qed

lemma tcp_session_Ok:
  assumes "tcp_session io tgt port dc h = (Ok (), h')"
  shows "\<exists>ev done. h' = h @ [TcpConnect port, OnMessage dc, Selected ev] @ done \<and> forwarded 2048 dc ev done"
  using assms by (auto simp: tcp_session_def forward_to_channel_def Let_def split: session_splits)

text \<open>
  C24: A session that returns has forwarded its chunk completely and unchanged: what it read from the
  local socket (up to the size of its buffer) went to the data channel in one send; the message of the
  data channel was taken by the sends on the UDP socket piece by piece, in order and whole, or was
  written to the TCP stream and flushed. The sockets are assumed to take no more than they are given.
\<close>

theorem session_forwards:
  assumes "serve_channel io tgt channel dc h = (Ok (), h')"
    and "\<And>msg h. honest_sends (\<lambda>n. n) msg 0 (socket_sends io msg h)"
  shows "case channel of
      Channel_UDP port r q \<Rightarrow> \<exists>ev done. h' = h @ [UdpBind, UdpConnect port, OnMessage dc, Selected ev] @ done
        \<and> forwarded UDP_PACKET_SIZE dc ev done
    | Channel_TCP port r q \<Rightarrow> \<exists>ev done. h' = h @ [TcpConnect port, OnMessage dc, Selected ev] @ done
        \<and> forwarded 2048 dc ev done
    | Channel_LocalSocket addr r q \<Rightarrow> h' = h"
  using assms udp_session_Ok [OF _ assms(2)] tcp_session_Ok by (cases channel) simp_all

text \<open>A concrete environment: the peer sends \<open>msg\<close> and the socket takes it in pieces of \<open>n\<close> bytes.\<close>

definition demo_io :: "bytes \<Rightarrow> nat \<Rightarrow> unit server_io" where
  "demo_io msg n = \<lparr>udp_bind = (\<lambda>h. Ok ()), udp_connect = (\<lambda>p h. Ok ()), tcp_connect = (\<lambda>p h. Ok ()),
     select_ready = (\<lambda>h. Some (MessageReady (Some msg))), channel_send = (\<lambda>dc b h. Ok (length b)),
     channel_close = (\<lambda>dc h. Ok ()),
     socket_sends = (\<lambda>m h. replicate (length m div n) (Inr n) @ [Inr (length m mod n)]),
     socket_write_all = (\<lambda>b h. Ok ()), socket_flush = (\<lambda>h. Ok ())\<rparr>"

definition demo_dc :: data_channel where
  "demo_dc = \<lparr>dc_label = ''0'', dc_protocol = ''53''\<rparr>"

lemma honest_replicate:
  "k * n + r \<le> length msg - sent_n \<Longrightarrow>
   honest_sends (\<lambda>m. m) msg sent_n (replicate k (Inr n) @ [Inr r])"
  by (induction k arbitrary: sent_n) auto

lemma demo_io_honest: "honest_sends (\<lambda>m. m) m 0 (socket_sends (demo_io msg n) m h)"
  using honest_replicate [of "length m div n" n "length m mod n" m 0] by (simp add: demo_io_def)

theorem session_forwards_witness:
  "\<exists>ev done. [UdpBind, UdpConnect 53, OnMessage demo_dc, Selected (MessageReady (Some [1, 2, 3])),
        SocketTook [1, 2], SocketTook [3]]
      = [UdpBind, UdpConnect 53, OnMessage demo_dc, Selected ev] @ done
    \<and> forwarded UDP_PACKET_SIZE demo_dc ev done"
proof -
  have "serve_channel (demo_io [1, 2, 3] 2) x86_64_debug (Channel_UDP 53 None None) demo_dc []
    = (Ok (), [UdpBind, UdpConnect 53, OnMessage demo_dc, Selected (MessageReady (Some [1, 2, 3])),
        SocketTook [1, 2], SocketTook [3]])"
    by (simp add: udp_session_def demo_io_def or_panic_def)
  from session_forwards [OF this demo_io_honest] show ?thesis by simp
qed

text \<open>
  C25: A message from the peer reaches the UDP service. If the socket can be bound and connected, the
  message is there, and every send takes at least one byte and no more than it is given (the whole
  datagram at once, or any cutting of it), then the session returns after at most as many sends as the
  message has bytes, and the bytes it has sent to the service are the message.
\<close>

theorem udp_session_delivers:
  assumes "\<And>h. udp_bind io h = Ok ()" and "\<And>h. udp_connect io port h = Ok ()"
    and "\<And>h. select_ready io h = Some (MessageReady (Some msg))"
    and "\<And>h. honest_sends (\<lambda>n. n) msg 0 (socket_sends io msg h)"
    and "\<And>h. positive_sends (socket_sends io msg h)"
    and "\<And>h. length msg \<le> taken (socket_sends io msg h)"
  shows "\<exists>chunks. udp_session io tgt port dc h
      = (Ok (), h @ [UdpBind, UdpConnect port, OnMessage dc, Selected (MessageReady (Some msg))] @ map SocketTook chunks)
    \<and> concat chunks = msg \<and> length chunks \<le> length msg"
proof -
  let ?h = "h @ [UdpBind, UdpConnect port, OnMessage dc, Selected (MessageReady (Some msg))]"
  obtain chunks where "send_loop (\<lambda>n. n) msg 0 (socket_sends io msg ?h) = (Ok (), chunks)"
    "concat chunks = msg" "length chunks \<le> length msg"
    using send_loop_delivers [OF assms(4-6)] by blast
  then show ?thesis by (intro exI [of _ chunks]) (simp add: udp_session_def or_panic_def assms(1-3))
qed

text \<open>The socket of the witness takes two bytes and then the third.\<close>

theorem udp_session_delivers_witness:
  "\<exists>chunks. udp_session (demo_io [7, 8, 9] 1\<lparr>socket_sends := \<lambda>m h. [Inr 2, Inr 1]\<rparr>) x86_64_debug 53 demo_dc []
      = (Ok (), [] @ [UdpBind, UdpConnect 53, OnMessage demo_dc, Selected (MessageReady (Some [7, 8, 9]))] @ map SocketTook chunks)
    \<and> concat chunks = [7, 8, 9] \<and> length chunks \<le> length [7, 8, 9 :: byte]"
  by (rule udp_session_delivers) (simp_all add: demo_io_def positive_sends_def)

section \<open>Properties of the command\<close>

text \<open>The accept loop of the tunnel never leaves the accepting phase but by the panic of \<open>on_err\<close>.\<close>

definition tunnel_run_inv :: "run_state \<Rightarrow> bool" where
  "tunnel_run_inv s \<longleftrightarrow> close_calls s = 0 \<and> close_queue s = 0
     \<and> phase s = (if err_calls s = 0 then Accepting else Crashed)"

interpretation tunnel_loop: inductive_system "\<lambda>s. s = run_init" tunnel_run_step tunnel_run_inv
proof unfold_locales
  fix s t assume "tunnel_run_inv s" "tunnel_run_step s t"
  then show "tunnel_run_inv t"
    by (elim tunnel_run_stepE) (auto simp: tunnel_run_inv_def run_op_defs tunnel_on_err_def)
qed (simp add: tunnel_run_inv_def run_init_def)

lemma tunnel_run_step_run: "tunnel_run_step s t \<Longrightarrow> run_step s t"
  by (elim tunnel_run_stepE) (auto intro: run_step.intros)

lemma tunnel_run_outcome:
  "reach (\<lambda>s. s = run_init) tunnel_run_step rs \<Longrightarrow>
     run_outcome rs = (if err_calls rs = 0 then Blocked else Panicked)"
  by (drule tunnel_loop.reach_good) (simp add: tunnel_run_inv_def run_outcome_def)

text \<open>
  C34: The tunnel's server stops at the first failed accept. Its accept loop never returns; it goes on
  accepting as long as no accept has failed, and the first error of an accept (with TLS, one client
  that fails its handshake is enough) makes the callback panic, which unwinds the loop and with it the
  command; from then on no connection is accepted.
\<close>

theorem tunnel_server_stops_at_accept_error:
  assumes "reach (\<lambda>s. s = run_init) tunnel_run_step rs"
  shows "run_outcome rs = (if err_calls rs = 0 then Blocked else Panicked :: (unit, unit) res)
    \<and> (phase rs = Crashed \<longrightarrow> \<not> tunnel_run_step rs (accept_ok rs))"
proof (intro conjI impI)
  show "\<not> tunnel_run_step rs (accept_ok rs)" if "phase rs = Crashed"
  proof
    assume "tunnel_run_step rs (accept_ok rs)"
    then show False
    proof (rule tunnel_run_stepE)
      fix i assume "accept_ok rs = end_task i rs"
      then have "length (running_tasks (accept_ok rs)) = length (running_tasks (end_task i rs))" by simp
      then show False by (simp add: accept_ok_def end_task_def)
    qed (use that in simp_all)
  qed
qed (rule tunnel_run_outcome [OF assms])

theorem tunnel_server_stops_at_accept_error_witness:
  "run_outcome (accept_err Panicked (accept_ok run_init)) = (Panicked :: (unit, unit) res)
    \<and> \<not> tunnel_run_step (accept_err Panicked (accept_ok run_init)) (accept_ok (accept_err Panicked (accept_ok run_init)))"
proof -
  have 1: "reach (\<lambda>s. s = run_init) tunnel_run_step (accept_ok run_init)"
    by (rule reach_step, rule reach_init, rule refl, rule tunnel_accept_ok) (simp add: run_init_def)
  have "tunnel_run_step (accept_ok run_init) (accept_err Panicked (accept_ok run_init))"
    using tunnel_accept_err [of "accept_ok run_init"] by (simp add: tunnel_on_err_def accept_ok_def run_init_def)
  from tunnel_server_stops_at_accept_error [OF reach_step [OF 1 this]] show ?thesis
    by (simp add: run_init_def run_op_defs)
qed


text \<open>The last step of the command: the accept loop on a bound listener, with or without TLS.\<close>

lemma run_outcome_not_Err [simp]: "run_outcome rs \<noteq> Err e"
  by (simp add: run_outcome_def split: run_phase.split)

lemma server_command_reaches_run:
  fixes pki :: "('kp, 'params, 'cert, 'rc, 'ru, 'acc, 'conn) pki" and toml :: "string \<Rightarrow> 'te + ServerConfig"
  assumes "\<not> is_Err (fst (server_command pki toml bt bl run st path s))"
  shows "\<exists>content config l. read_to_string path s = Inr content \<and> toml content = Inr config
    \<and> (case st of Server_TCP addr \<Rightarrow> bt addr | Server_LocalSocket addr \<Rightarrow> bl addr) = Inr l
    \<and> (if cfg_root_cert_chain_path config = []
       then server_command pki toml bt bl run st path s = (run_outcome (run l None (allowed_channels (cfg_channels config))), s)
       else \<exists>acc s'. new_tls_acceptor pki (tls_server_config config) s = (Ok acc, s')
         \<and> server_command pki toml bt bl run st path s = (run_outcome (run l (Some acc) (allowed_channels (cfg_channels config))), s'))"
proof -
  obtain content where content: "read_to_string path s = Inr content"
    using assms by (cases "read_to_string path s") (simp_all add: server_command_def)
  obtain config where config: "toml content = Inr config"
    using assms content by (cases "toml content") (simp_all add: server_command_def)
  obtain l where l: "(case st of Server_TCP addr \<Rightarrow> bt addr | Server_LocalSocket addr \<Rightarrow> bl addr) = Inr l"
    using assms content config
    by (cases "case st of Server_TCP addr \<Rightarrow> bt addr | Server_LocalSocket addr \<Rightarrow> bl addr")
      (auto simp: server_command_def server_new_tcp_def server_new_local_socket_def split: ServerStreamType.splits)
  have bound: "(case st of
         Server_TCP addr \<Rightarrow> (try_map Any_Io (server_new_tcp (bt addr)), s)
       | Server_LocalSocket addr \<Rightarrow> (try_map Any_Io (server_new_local_socket (bl addr)), s))
     = (Ok (server_new l) :: (('te, 'rc, 'ru) server_anyhow, _) res, s)"
    using l by (auto simp: server_new_tcp_def server_new_local_socket_def split: ServerStreamType.splits)
  obtain r s' where r: "new_tls_acceptor pki (tls_server_config config) s = (r, s')"
    by (cases "new_tls_acceptor pki (tls_server_config config) s")
  with new_tls_acceptor_settled [of pki "tls_server_config config" s] have "settled r" by simp
  with assms r content config bound l show ?thesis
    by (cases r) (auto simp: server_command_def tls_server_config_def server_add_tls_from_config_def
        server_add_tls_def server_new_def Let_def split: if_splits)
qed

text \<open>
  C23: The server command never serves in the clear when TLS is configured, and never ends normally.
  The command either fails with an error before any connection is accepted, or it runs the accept loop
  on the listener it bound. With a certificate chain configured the loop runs only behind the acceptor
  that was built from the configuration; without one it runs in plain text and the file system is left
  alone. In both cases the callbacks get the table of the configured channels. As the accept loop of the
  tunnel does not return, neither does the command.
\<close>

theorem server_command_no_plaintext_fallback:
  assumes "\<And>l acceptor allowed. reach (\<lambda>s. s = run_init) tunnel_run_step (run l acceptor allowed)"
  shows "is_Err (fst (server_command pki toml bt bl run st path s))
    \<or> (\<exists>content config l. read_to_string path s = Inr content \<and> toml content = Inr config
      \<and> (case st of Server_TCP addr \<Rightarrow> bt addr | Server_LocalSocket addr \<Rightarrow> bl addr) = Inr l
      \<and> fst (server_command pki toml bt bl run st path s) \<in> {Blocked, Panicked}
      \<and> (if cfg_root_cert_chain_path config = []
         then server_command pki toml bt bl run st path s = (run_outcome (run l None (allowed_channels (cfg_channels config))), s)
         else \<exists>acc s'. new_tls_acceptor pki (tls_server_config config) s = (Ok acc, s')
           \<and> server_command pki toml bt bl run st path s = (run_outcome (run l (Some acc) (allowed_channels (cfg_channels config))), s')))"
proof (cases "is_Err (fst (server_command pki toml bt bl run st path s))")
  case False
  have "run_outcome (run l acceptor allowed) \<in> {Blocked, Panicked}" for l acceptor allowed
    by (simp add: tunnel_run_outcome [OF assms])
  with server_command_reaches_run [OF False] show ?thesis by (fastforce split: if_splits)
qed simp


definition demo_server_config :: ServerConfig where
  "demo_server_config = \<lparr>cfg_root_cert_chain_path = ''ca.pem'', cfg_parent_key_path = ''ca.key'',
     cfg_subject_alt_names = [], cfg_create_if_missing = True, cfg_channels = []\<rparr>"

text \<open>A run on an empty file system but for the configuration: TLS is set up and the server accepts.\<close>

theorem server_command_no_plaintext_fallback_witness:
  "fst (server_command toy_pki (\<lambda>content. Inr demo_server_config :: string + ServerConfig) Inr Inr (\<lambda>l acceptor allowed. run_init)
      (Server_TCP ''0.0.0.0:1'') ''server.toml'' (empty_fs\<lparr>files := [''server.toml'' \<mapsto> []]\<rparr>))
    \<in> {Blocked, Panicked}"
proof -
  have "reach (\<lambda>s. s = run_init) tunnel_run_step run_init" by (rule reach_init) simp
  note all = server_command_no_plaintext_fallback [of "\<lambda>l acceptor allowed. run_init", OF this, of toy_pki
      "\<lambda>content. Inr demo_server_config :: string + ServerConfig" Inr Inr
      "Server_TCP ''0.0.0.0:1''" "''server.toml''" "empty_fs\<lparr>files := [''server.toml'' \<mapsto> []]\<rparr>"]
  have "\<not> is_Err (fst (server_command toy_pki (\<lambda>content. Inr demo_server_config :: string + ServerConfig) Inr Inr
      (\<lambda>l acceptor allowed. run_init) (Server_TCP ''0.0.0.0:1'') ''server.toml'' (empty_fs\<lparr>files := [''server.toml'' \<mapsto> []]\<rparr>)))"
    by (simp add: server_command_def read_to_string_def fs_open_def empty_fs_def server_new_tcp_def
        demo_server_config_def tls_server_config_def server_add_tls_from_config_def new_tls_acceptor_def
        fs_try_exists_def create_parent_def server_acceptor_def fs_write_def toy_pki_def run_outcome_def run_init_def)
  with all show ?thesis by blast
qed

section \<open>The connections of the tunnel\<close>

text \<open>
  A connection of the tunnel ends only by a panic or not at all. Run with the tunnel's callbacks, the
  task of a connection returns on no path: every error of the connection (a message that does not
  deserialise, a broken stream, an error of the crate) is reported to \<open>on_err\<close>, which panics, after the
  peer, if there was one, has been closed; the panic is confined to the task of that connection.
\<close>

theorem tunnel_task_never_returns:
  "fst (connection_task env (tunnel_hooks io tgt allowed arrivals close) tid rounds h) \<in> {Panicked, Blocked}"
proof (induction env "tunnel_hooks io tgt allowed arrivals close" tid rounds h rule: connection_task.induct)
  case (3 env tid offer evs rounds h)
  then show ?case
    by (auto simp: perform_def report_def close_and_report_def tunnel_hooks_def tunnel_on_err_def settle_def and_then_def
        split: res.splits prod.splits)
qed (simp_all add: report_def tunnel_hooks_def tunnel_on_err_def settle_def)

end
