(* ===== verification/Tunnel_Client.thy ===== *)
theory Tunnel_Client
  imports Tunnel_Listeners Tunnel_Server
begin

text \<open>
  The client command of the tunnel, \<open>webrtc-tunnel/src/client.rs\<close>: the connection to the server up to
  the closing of the initial data channel, the reference-counted wrapper of the peer connection, the
  supervision of the tasks and the shutdown.
\<close>

section \<open>Data\<close>

record ClientConfig =
  use_tls :: bool
  root_cert_path :: "string option"
  domain_name :: "string option"
  client_channels :: "Channel list"

datatype ClientStreamType = Client_TCP string | Client_LocalSocket string

type_synonym endpoint = "(id_stream \<times> StreamTransport) UpgradeWebRTCClient"

text \<open>The network: the calls that connect a stream, the TLS handshake, \<open>ServerName::try_from\<close>.\<close>

record 'conn client_net =
  connect_tcp :: "string \<Rightarrow> io_error + id_stream \<times> stream"
  connect_local :: "string \<Rightarrow> io_error + id_stream \<times> stream"
  tls_connect :: "'conn \<Rightarrow> string \<Rightarrow> stream \<Rightarrow> io_error + stream"
  server_name_ok :: "string \<Rightarrow> bool"

text \<open>
  The other side of an upgrade over an endpoint: the environment of \<open>upgrade\<close>, the answers and events
  it sees, and \<open>close\<close> of a data channel.
\<close>

record ('sdp, 'cand, 'init, 'chan, 'de, 'werr, 'err) client_remote =
  remote_env :: "endpoint \<Rightarrow> ('sdp, 'cand, 'init, 'chan, 'werr, 'err) webrtc_env"
  remote_msgs :: "endpoint \<Rightarrow> ('de RecvError + ('sdp, 'init) RTCMessage) list"
  remote_events :: "endpoint \<Rightarrow> ('sdp, 'cand, 'init, 'de) client_event list"
  close_data_channel :: "'chan \<Rightarrow> ('sdp, 'cand, 'init, 'err) history \<Rightarrow> ('werr, unit) res"

type_synonym ('te, 'rc, 'ru, 'de, 'werr) client_anyhow =
  "('te, 'rc, 'ru, ('de, 'werr) ClientError, 'werr) anyhow_error"

section \<open>Connecting\<close>

definition client_connect ::
  "'conn client_net \<Rightarrow> ClientStreamType \<Rightarrow> io_error + endpoint" where
  "client_connect net stream_type = (case stream_type of
      Client_TCP addr \<Rightarrow> client_new_tcp (connect_tcp net addr)
    | Client_LocalSocket addr \<Rightarrow> client_new_local_socket (connect_local net addr))"

definition client_secure ::
  "('kp, 'params, 'cert, 'rc, 'ru, 'acc, 'conn) pki \<Rightarrow> 'conn client_net \<Rightarrow> ClientConfig \<Rightarrow> fs \<Rightarrow> endpoint
    \<Rightarrow> (('te, 'rc, 'ru, 'de, 'werr) client_anyhow, endpoint) res" where
  "client_secure pki net config s ep =
     (if use_tls config
      then case domain_name config of
          None \<Rightarrow> Err (Any_Msg ''Missing domain name'')
        | Some domain \<Rightarrow>
            if server_name_ok net domain
            then map_res Any_Tls id
              (fst (client_add_tls_from_config pki (tls_connect net) domain (root_cert_path config) s ep))
            else Err Any_InvalidDnsName
      else Ok ep)"

text \<open>From the configuration file to the closed initial data channel: lines 53 to 100.\<close>

definition client_setup ::
  "('kp, 'params, 'cert, 'rc, 'ru, 'acc, 'conn) pki \<Rightarrow> 'conn client_net
    \<Rightarrow> ('sdp, 'cand, 'init, 'chan, 'de, 'werr, 'err) client_remote \<Rightarrow> (string \<Rightarrow> 'te + ClientConfig)
    \<Rightarrow> ClientStreamType \<Rightarrow> string \<Rightarrow> fs \<Rightarrow> ('sdp, 'cand, 'init, 'err) history
    \<Rightarrow> (('te, 'rc, 'ru, 'de, 'werr) client_anyhow, ClientConfig) res \<times> ('sdp, 'cand, 'init, 'err) history" where
  "client_setup pki net remote toml stream_type config_path s h =
     and_then (try_map Any_Io (read_to_string config_path s), h) (\<lambda>content h.
     and_then (try_map Any_Toml (toml content), h) (\<lambda>config h.
     if client_channels config = [] then (Err (Any_Msg ''No channels provided''), h)
     else
       and_then (try_map Any_Io (client_connect net stream_type), h) (\<lambda>ep h.
       and_then (client_secure pki net config s ep, h) (\<lambda>ep h.
       and_then (apfst (map_res Any_Client id) (upgrade (remote_env remote ep) [(''init'', TCP_DATA_CHANNEL)]
         (remote_msgs remote ep) (remote_events remote ep) h)) (\<lambda>channels h.
       if channels = [] then (Panicked, h)
       else
         and_then (perform (CloseDataChannel (fst (last channels))) Any_WebRTC
           (close_data_channel remote (snd (last channels))) h) (\<lambda>_ h.
         (Ok config, h)))))))"

section \<open>The wrapper of the peer connection\<close>









section \<open>Supervision and shutdown\<close>

datatype 'werr join_result = Joined "'werr task_error + unit" | JoinPanicked

datatype 'werr supervisor_event = CtrlC "io_error + unit" | JoinPolled "'werr join_result"

text \<open>\<open>join_next\<close> returns nothing exactly if the set of tasks is empty.\<close>

definition join_next :: "nat \<Rightarrow> 'r \<Rightarrow> 'r option" where
  "join_next live r = (if live = 0 then None else Some r)"

text \<open>
  The loop over Ctrl-C and the first task that ends. \<open>armed\<close>: the future for Ctrl-C is not yet the one
  that stays pending forever, which its first failure puts in its place; a pending future is never
  ready, so its events do not count. The second component is the number of tasks left.
\<close>

fun supervise ::
  "bool \<Rightarrow> nat \<Rightarrow> 'werr supervisor_event list
    \<Rightarrow> ('werr exit_error, unit) res \<times> nat" where
  "supervise armed live [] = (Blocked, live)"
| "supervise armed live (CtrlC r # evs) =
     (if armed
      then (case r of Inl e \<Rightarrow> supervise False live evs | Inr _ \<Rightarrow> (Ok (), live))
      else supervise armed live evs)"
| "supervise armed live (JoinPolled r # evs) =
     (case join_next live r of
        None \<Rightarrow> (Panicked, live)
      | Some (Joined (Inr _)) \<Rightarrow> (Ok (), live - 1)
      | Some (Joined (Inl e)) \<Rightarrow> (Err (Exit_Task e), live - 1)
      | Some JoinPanicked \<Rightarrow> (Err Exit_Join, live - 1))"

text \<open>\<open>while tasks.join_next().await.is_some() {}\<close>, over the results of the tasks that end.\<close>

fun join_all :: "nat \<Rightarrow> 'werr join_result list \<Rightarrow> ('werr exit_error, unit) res" where
  "join_all 0 rs = Ok ()"
| "join_all (Suc live) [] = Blocked"
| "join_all (Suc live) (r # rs) = join_all live rs"

datatype shutdown_action = AbortAll | CloseWrappedPeer | DropEndSender | JoinAll

definition client_shutdown ::
  "('werr, unit) res \<Rightarrow> nat \<Rightarrow> 'werr join_result list \<Rightarrow> ('werr exit_error, unit) res \<times> shutdown_action list"
  where
  "client_shutdown close_peer live joins =
     and_then (settle close_peer, [AbortAll, CloseWrappedPeer]) (\<lambda>_ l.
     (join_all live joins, l @ [DropEndSender, JoinAll]))"

text \<open>The command: the setup, one task per channel, supervision, and the shutdown unless a task failed.\<close>

definition client_command ::
  "('kp, 'params, 'cert, 'rc, 'ru, 'acc, 'conn) pki \<Rightarrow> 'conn client_net
    \<Rightarrow> ('sdp, 'cand, 'init, 'chan, 'de, 'werr, 'err) client_remote \<Rightarrow> (string \<Rightarrow> 'te + ClientConfig)
    \<Rightarrow> 'werr supervisor_event list \<Rightarrow> ('werr, unit) res \<Rightarrow> 'werr join_result list
    \<Rightarrow> ClientStreamType \<Rightarrow> string \<Rightarrow> fs
    \<Rightarrow> (('te, 'rc, 'ru, 'de, 'werr) client_anyhow, unit) res \<times> shutdown_action list" where
  "client_command pki net remote toml evs close_peer joins stream_type config_path s =
     (case client_setup pki net remote toml stream_type config_path s [] of
        (Ok config, h) \<Rightarrow>
          apfst (map_res Any_Exit id)
            (case supervise True (length (client_channels config)) evs of
               (Ok _, live) \<Rightarrow> client_shutdown close_peer live joins
             | (r, live) \<Rightarrow> (r, []))
      | (Err e, h) \<Rightarrow> (Err e, [])
      | (Panicked, h) \<Rightarrow> (Panicked, [])
      | (Blocked, h) \<Rightarrow> (Blocked, []))"

section \<open>Lemmas\<close>

text \<open>The client that upgrades under TLS has a stream that a handshake with the configured domain returned.\<close>

definition secured ::
  "('kp, 'params, 'cert, 'rc, 'ru, 'acc, 'conn) pki \<Rightarrow> 'conn client_net \<Rightarrow> ClientConfig \<Rightarrow> fs \<Rightarrow> endpoint \<Rightarrow> endpoint \<Rightarrow> bool"
  where
  "secured pki net config s ep ep' \<longleftrightarrow> (\<exists>domain connector st. domain_name config = Some domain
     \<and> server_name_ok net domain \<and> fst (new_tls_connector pki (root_cert_path config) s) = Ok connector
     \<and> tls_connect net connector domain (stream (snd (client ep))) = Inr st
     \<and> snd (client ep') = transport_from st)"

lemma client_add_tls_from_config_Ok:
  assumes "fst (client_add_tls_from_config pki connect domain path s ep) = Ok ep'"
  shows "\<exists>connector st. fst (new_tls_connector pki path s) = Ok connector
    \<and> connect connector domain (stream (snd (client ep))) = Inr st \<and> snd (client ep') = transport_from st"
proof -
  obtain r s' where r: "new_tls_connector pki path s = (r, s')" by (cases "new_tls_connector pki path s")
  with assms show ?thesis
    by (cases r) (auto simp: client_add_tls_from_config_def client_add_tls_def split: prod.splits sum.splits)
qed

lemma client_secure_Ok:
  assumes "client_secure pki net config s ep = Ok ep'"
  shows "if use_tls config then secured pki net config s ep ep' else ep' = ep"
  using assms client_add_tls_from_config_Ok [of pki "tls_connect net" _ "root_cert_path config" s ep ep']
  by (auto simp: client_secure_def secured_def map_res_Ok_iff split: if_splits option.splits)


text \<open>The initial data channel is there after a successful upgrade, and it is the one that is closed.\<close>

lemma upgrade_init_channel:
  assumes "upgrade env [(''init'', TCP_DATA_CHANNEL)] msgs evs h = (Ok channels, h')"
  shows "channels \<noteq> [] \<and> fst (last channels) = ''init''"
proof -
  from upgrade_labels [OF assms] have "map fst channels = [''init'']" by simp
  then show ?thesis by (cases channels) auto
qed


lemma client_setup_steps:
  fixes remote :: "('sdp, 'cand, 'init, 'chan, 'de, 'werr, 'err) client_remote"
    and pki :: "('kp, 'params, 'cert, 'rc, 'ru, 'acc, 'conn) pki" and toml :: "string \<Rightarrow> 'te + ClientConfig"
  assumes "client_setup pki net remote toml st path s h = (Ok config, h')"
  obtains ep ep' channels h1 where "client_channels config \<noteq> []" "client_connect net st = Inr ep"
    "client_secure pki net config s ep = (Ok ep' :: (('te, 'rc, 'ru, 'de, 'werr) client_anyhow, _) res)"
    "upgrade (remote_env remote ep') [(''init'', TCP_DATA_CHANNEL)] (remote_msgs remote ep') (remote_events remote ep') h
      = (Ok channels, h1)"
    "channels \<noteq> []" "h' = h1 @ [CloseDataChannel (fst (last channels))]"
  using assms
  by (fastforce simp: client_setup_def apfst_Ok_iff split: if_splits)


section \<open>Properties of the command\<close>

text \<open>
  C12: What a successful connection of the client has done. The configuration has a channel; the upgrade ran
  on the connected stream or, if TLS is configured, only on a stream that a handshake with the configured
  domain returned, never on the plain one; and the last effect is the closing of the data channel
  \<open>init\<close>, the only one that the upgrade created.
\<close>

theorem client_setup_success:
  fixes remote :: "('sdp, 'cand, 'init, 'chan, 'de, 'werr, 'err) client_remote"
    and pki :: "('kp, 'params, 'cert, 'rc, 'ru, 'acc, 'conn) pki" and toml :: "string \<Rightarrow> 'te + ClientConfig"
  assumes "client_setup pki net remote toml st path s [] = (Ok config, h)"
  shows "client_channels config \<noteq> [] \<and> last h = CloseDataChannel ''init''
    \<and> (\<exists>ep ep' channels h1. client_connect net st = Inr ep
      \<and> (if use_tls config then secured pki net config s ep ep' else ep' = ep)
      \<and> upgrade (remote_env remote ep') [(''init'', TCP_DATA_CHANNEL)] (remote_msgs remote ep') (remote_events remote ep') []
        = (Ok channels, h1) \<and> map fst channels = [''init''])"
proof -
  from assms obtain ep ep' channels h1 where *: "client_channels config \<noteq> []" "client_connect net st = Inr ep"
    "client_secure pki net config s ep = (Ok ep' :: (('te, 'rc, 'ru, 'de, 'werr) client_anyhow, _) res)"
    "upgrade (remote_env remote ep') [(''init'', TCP_DATA_CHANNEL)] (remote_msgs remote ep') (remote_events remote ep') []
      = (Ok channels, h1)" "h = h1 @ [CloseDataChannel (fst (last channels))]"
    by (rule client_setup_steps)
  have "map fst channels = [''init'']" using upgrade_labels [OF *(4)] by simp
  with * client_secure_Ok [OF *(3)] upgrade_init_channel [OF *(4)] show ?thesis by auto
qed






text \<open>A run: one TCP channel, TLS, the demonstration upgrade, Ctrl-C.\<close>

definition demo_client_config :: ClientConfig where
  "demo_client_config = \<lparr>use_tls = True, root_cert_path = None, domain_name = Some ''example.org'',
     client_channels = [Channel_TCP 80 None (Some Quality_TCP)]\<rparr>"

definition demo_net :: "bytes list client_net" where
  "demo_net = \<lparr>connect_tcp = (\<lambda>a. Inr (TcpStream (Inr a), idle_stream [] [])),
     connect_local = (\<lambda>a. Inl (IoErr NotFound [])), tls_connect = (\<lambda>c d st. Inr st), server_name_ok = (\<lambda>d. True)\<rparr>"

definition demo_remote :: "(nat, nat, nat, nat, string, unit, unit) client_remote" where
  "demo_remote = \<lparr>remote_env = (\<lambda>ep. ok_env), remote_msgs = (\<lambda>ep. [Inr (ICE 4), Inr (SDPAnswer 2)]),
     remote_events = (\<lambda>ep. demo_events), close_data_channel = (\<lambda>ch h. Ok ())\<rparr>"

abbreviation demo_client_fs :: fs where
  "demo_client_fs \<equiv> empty_fs\<lparr>files := [''client.toml'' \<mapsto> []]\<rparr>"

lemma demo_client_setup:
  "\<exists>h. client_setup toy_pki demo_net demo_remote (\<lambda>c. Inr demo_client_config :: string + ClientConfig)
    (Client_TCP ''10.0.0.1:9'') ''client.toml'' demo_client_fs [] = (Ok demo_client_config, h)"
  by (simp add: client_setup_def read_to_string_def fs_open_def empty_fs_def demo_client_config_def client_connect_def
      demo_net_def client_new_tcp_def client_secure_def client_add_tls_from_config_def new_tls_connector_def
      client_add_tls_def client_new_def demo_remote_def upgrade_demo perform_def)

theorem client_setup_success_witness:
  "\<exists>ep ep' channels h1. client_connect demo_net (Client_TCP ''10.0.0.1:9'') = Inr ep
    \<and> secured toy_pki demo_net demo_client_config demo_client_fs ep ep'
    \<and> upgrade (remote_env demo_remote ep') [(''init'', TCP_DATA_CHANNEL)] (remote_msgs demo_remote ep')
        (remote_events demo_remote ep') [] = (Ok channels, h1) \<and> map fst channels = [''init'']"
proof -
  obtain h where "client_setup toy_pki demo_net demo_remote (\<lambda>c. Inr demo_client_config :: string + ClientConfig)
    (Client_TCP ''10.0.0.1:9'') ''client.toml'' demo_client_fs [] = (Ok demo_client_config, h)"
    using demo_client_setup by blast
  from client_setup_success [OF this] show ?thesis by (simp add: demo_client_config_def)
qed



lemma join_all_enough: "live \<le> length rs \<Longrightarrow> join_all live rs = Ok ()"
  by (induction live rs rule: join_all.induct) auto

lemma join_all_no_error: "join_all live rs \<noteq> Err e"
  by (induction live rs rule: join_all.induct) auto

lemma client_shutdown_log:
  "case client_shutdown close_peer live joins of
     (Ok _, l) \<Rightarrow> l = [AbortAll, CloseWrappedPeer, DropEndSender, JoinAll]
   | (Err e, l) \<Rightarrow> False
   | (_, l) \<Rightarrow> True"
  using join_all_no_error [of live joins]
  by (auto simp: client_shutdown_def settle_def and_then_def split: res.splits)

lemma supervise_Ok:
  "fst (supervise armed live evs) = Ok u \<Longrightarrow>
     (armed \<and> CtrlC (Inr ()) \<in> set evs \<or> JoinPolled (Joined (Inr ())) \<in> set evs)"
  by (induction armed live evs rule: supervise.induct)
    (auto simp: join_next_def split: if_splits sum.splits join_result.splits)

lemma client_command_log:
  "case client_command pki net remote toml evs close_peer joins st path s of
     (Ok _, l) \<Rightarrow> l = [AbortAll, CloseWrappedPeer, DropEndSender, JoinAll]
       \<and> (CtrlC (Inr ()) \<in> set evs \<or> JoinPolled (Joined (Inr ())) \<in> set evs)
   | (Err e, l) \<Rightarrow> l = []
   | (_, l) \<Rightarrow> True"
proof (cases "client_setup pki net remote toml st path s []")
  case (Pair r h)
  show ?thesis
  proof (cases r)
    case (Ok config)
    obtain q live where q: "supervise True (length (client_channels config)) evs = (q, live)"
      by (cases "supervise True (length (client_channels config)) evs")
    show ?thesis
    proof (cases "q = Ok ()")
      case True
      obtain z l where "client_shutdown close_peer live joins = (z, l)"
        by (cases "client_shutdown close_peer live joins")
      with True client_shutdown_log [of close_peer live joins] q Pair Ok
        supervise_Ok [of True "length (client_channels config)" evs "()"]
      show ?thesis by (cases z) (auto simp: client_command_def)
    next
      case False
      with q Pair Ok show ?thesis by (cases q) (auto simp: client_command_def)
    qed
  qed (simp_all add: Pair client_command_def)
qed

lemma client_command_ctrl_c:
  assumes "client_setup pki net remote toml st path s [] = (Ok config, h)" and "close_peer \<in> {Ok (), Err e}"
    and "length (client_channels config) \<le> length joins"
  shows "client_command pki net remote toml (CtrlC (Inr ()) # rest) close_peer joins st path s
    = (Ok (), [AbortAll, CloseWrappedPeer, DropEndSender, JoinAll])"
  using assms by (auto simp: client_command_def client_shutdown_def settle_def join_all_enough)

text \<open>
  C29: How the client command ends. It returns successfully only if Ctrl-C was signalled or a task returned
  without an error, and then it has shut down in order: it aborted the tasks, closed the peer, dropped the
  end signal and waited for the tasks. It returns an error without touching the peer itself, which the
  wrapper closes. If Ctrl-C is signalled before a task has ended, it returns successfully as soon as the
  close returns, with an error or not, and the aborted tasks have ended.
\<close>

theorem client_command_ends:
  "(case client_command pki net remote toml evs close_peer joins st path s of
      (Ok _, l) \<Rightarrow> l = [AbortAll, CloseWrappedPeer, DropEndSender, JoinAll]
        \<and> (CtrlC (Inr ()) \<in> set evs \<or> JoinPolled (Joined (Inr ())) \<in> set evs)
    | (Err e, l) \<Rightarrow> l = []
    | (_, l) \<Rightarrow> True)
   \<and> (client_setup pki net remote toml st path s [] = (Ok config, h) \<and> close_peer \<in> {Ok (), Err e}
        \<and> length (client_channels config) \<le> length joins \<longrightarrow>
      client_command pki net remote toml (CtrlC (Inr ()) # rest) close_peer joins st path s
        = (Ok (), [AbortAll, CloseWrappedPeer, DropEndSender, JoinAll]))"
  using client_command_log [where pki = pki and net = net and remote = remote and toml = toml and evs = evs
      and close_peer = close_peer and joins = joins and st = st and path = path and s = s]
    client_command_ctrl_c [of pki net remote toml st path s config h close_peer e joins rest] by blast

theorem client_command_ends_witness:
  "client_command toy_pki demo_net demo_remote (\<lambda>c. Inr demo_client_config :: string + ClientConfig)
      (CtrlC (Inr ()) # []) (Ok ()) [JoinPanicked] (Client_TCP ''10.0.0.1:9'') ''client.toml'' demo_client_fs
    = (Ok (), [AbortAll, CloseWrappedPeer, DropEndSender, JoinAll])"
proof -
  obtain h where "client_setup toy_pki demo_net demo_remote (\<lambda>c. Inr demo_client_config :: string + ClientConfig)
    (Client_TCP ''10.0.0.1:9'') ''client.toml'' demo_client_fs [] = (Ok demo_client_config, h)"
    using demo_client_setup by blast
  moreover have "length (client_channels demo_client_config) \<le> length [JoinPanicked :: unit join_result]"
    by (simp add: demo_client_config_def)
  ultimately show ?thesis
    using client_command_ends [where close_peer = "Ok ()" and joins = "[JoinPanicked]" and h = h
        and config = demo_client_config and rest = "[]" and evs = "[]" and pki = toy_pki and net = demo_net
        and remote = demo_remote and toml = "\<lambda>c. Inr demo_client_config :: string + ClientConfig" and st = "Client_TCP ''10.0.0.1:9''"
        and path = "''client.toml''" and s = demo_client_fs]
    by simp
qed

section \<open>Properties of the wrapper\<close>






end
