(* ===== verification/Tunnel_Main.thy ===== *)
theory Tunnel_Main
  imports Tunnel_Client
begin

text \<open>
  The program, \<open>webrtc-tunnel/src/main.rs\<close>: the dispatch of \<open>main\<close> to the two commands, and the client
  command together with the tasks that it supervises.
\<close>

section \<open>The program\<close>

datatype Command = Command_Client ClientStreamType string | Command_Server ServerStreamType string

datatype ('le, 'ce, 'se) main_error = Main_Logger 'le | Main_Client 'ce | Main_Server 'se

text \<open>
  \<open>main\<close>: the logger, whose \<open>apply\<close> has the result \<open>logger\<close>, then the command. The remaining arguments
  are those of the commands. The result comes with the shutdown log of the client and the file system.
\<close>

definition main ::
  "('kp, 'params, 'cert, 'rc, 'ru, 'acc, 'conn) pki \<Rightarrow> 'conn client_net
    \<Rightarrow> ('sdp, 'cand, 'init, 'chan, 'de, 'werr, 'err) client_remote \<Rightarrow> (string \<Rightarrow> 'te + ClientConfig)
    \<Rightarrow> 'werr supervisor_event list \<Rightarrow> ('werr, unit) res \<Rightarrow> 'werr join_result list
    \<Rightarrow> (string \<Rightarrow> 'te + ServerConfig) \<Rightarrow> (string \<Rightarrow> io_error + 'l) \<Rightarrow> (string \<Rightarrow> io_error + 'l)
    \<Rightarrow> ('l \<Rightarrow> 'acc option \<Rightarrow> (string \<rightharpoonup> Channel) \<Rightarrow> run_state) \<Rightarrow> 'le + unit \<Rightarrow> Command \<Rightarrow> fs
    \<Rightarrow> (('le, ('te, 'rc, 'ru, 'de, 'werr) client_anyhow, ('te, 'rc, 'ru) server_anyhow) main_error, unit) res
      \<times> shutdown_action list \<times> fs" where
  "main pki net remote ctoml evs close_peer joins stoml bt bl run logger command s =
     (case logger of
        Inl e \<Rightarrow> (Err (Main_Logger e), [], s)
      | Inr _ \<Rightarrow>
          (case command of
             Command_Client stream_type config_path \<Rightarrow>
               (case client_command pki net remote ctoml evs close_peer joins stream_type config_path s of
                  (r, l) \<Rightarrow> (map_res Main_Client id r, l, s))
           | Command_Server stream_type config_path \<Rightarrow>
               (case server_command pki stoml bt bl run stream_type config_path s of
                  (r, s') \<Rightarrow> (map_res Main_Server id r, [], s'))))"

section \<open>The client and its tasks before the shutdown\<close>

text \<open>
  \<open>end_sender\<close> is dropped in the shutdown, after the supervision has ended; until then no task sees the
  end signal.
\<close>

fun end_signal :: "task_event \<Rightarrow> bool" where
  "end_signal (UdpEvent ev) \<longleftrightarrow> ev = UdpEnd"
| "end_signal (TcpEvent ev) \<longleftrightarrow> ev = TcpEnd"
| "end_signal Proceed \<longleftrightarrow> False"

inductive running_step :: "'werr client_io \<Rightarrow> target \<Rightarrow> 'werr client_state \<Rightarrow> 'werr client_state \<Rightarrow> bool"
  for io tgt where
  running_start: "i < length ts \<Longrightarrow> ts ! i = Unstarted c \<Longrightarrow> start_task io c w = (r, w')
    \<Longrightarrow> running_step io tgt (ts, w) (ts[i := Started c (task_after (map_res id Inr r))], w')"
| running_event: "i < length ts \<Longrightarrow> ts ! i = Started c t \<Longrightarrow> \<not> end_signal ev \<Longrightarrow> task_step io tgt ev t w = Some (t', w')
    \<Longrightarrow> running_step io tgt (ts, w) (ts[i := Started c t'], w')"

text \<open>What \<open>join_next\<close> reports of a task that has ended.\<close>

fun join_of :: "'werr task \<Rightarrow> 'werr join_result option" where
  "join_of (TaskEnded (Ok _)) = Some (Joined (Inr ()))"
| "join_of (TaskEnded (Err e)) = Some (Joined (Inl e))"
| "join_of (TaskEnded Panicked) = Some JoinPanicked"
| "join_of _ = None"

text \<open>The joins that the supervision sees are those of tasks that have ended.\<close>

definition joins_of :: "'werr client_state \<Rightarrow> 'werr join_result set" where
  "joins_of s = {r. \<exists>c t. Started c t \<in> set (fst s) \<and> join_of t = Some r}"

section \<open>Lemmas\<close>

text \<open>A task of the client returns without an error only on the end signal.\<close>

lemma task_after_done: "task_after r = TaskEnded (Ok u) \<longleftrightarrow> (\<exists>v. r = Ok (Inl v)) \<or> r = Ok (Inr (TaskEnded (Ok u)))"
  by (auto simp: task_after_def split: res.splits sum.splits)

lemma turn_done:
  assumes "TaskEnded (Ok u) = task_after (map_res id (map_sum id f) r)" and "\<And>x. f x \<noteq> TaskEnded (Ok u)"
  shows "r = Ok (Inl ())"
proof (cases r)
  case (Ok y)
  with assms show ?thesis by (cases y) (auto simp: task_after_def)
qed (use assms(1) in \<open>simp_all add: task_after_def\<close>)

lemma task_ends_on_signal:
  assumes "task_step io tgt ev t w = Some (TaskEnded (Ok u), w')"
  shows "ev = UdpEvent UdpEnd \<or> ev = TcpEvent TcpEnd"
  using assms
proof (cases rule: task_stepE)
  case (UdpTurn uev port lp quality st)
  from turn_done [OF UdpTurn(4)] have "udp_turn io uev st = Ok (Inl ())" by auto
  with UdpTurn show ?thesis
    by (auto simp: udp_turn_def split: udp_event.splits sum.splits prod.splits option.splits)
next
  case (TcpTurn tev port quality)
  from turn_done [OF TcpTurn(4)] have "(tcp_turn tev :: ('a task_error, _) res) = Ok (Inl ())" by auto
  with TcpTurn show ?thesis by (auto simp: tcp_turn_def split: tcp_event.splits sum.splits)
qed (auto simp: task_after_done map_res_Ok_iff dest!: sym [of "TaskEnded _"])

lemma join_of_success: "join_of t = Some (Joined (Inr u)) \<longleftrightarrow> t = TaskEnded (Ok ())"
  by (cases t rule: join_of.cases) auto

lemma start_task_not_done: "task_after (map_res id Inr (fst (start_task io c w))) \<noteq> TaskEnded (Ok ())"
  by (cases "(io, c, w)" rule: start_task.cases) (auto simp: call_def and_then_def task_after_def split: res.splits)

definition none_done :: "'werr client_state \<Rightarrow> bool" where
  "none_done s \<longleftrightarrow> (\<forall>sl \<in> set (fst s). slot_ok (\<lambda>c t. t \<noteq> TaskEnded (Ok ())) sl)"

lemma none_done_update:
  "none_done (ts, w) \<Longrightarrow> t \<noteq> TaskEnded (Ok ()) \<Longrightarrow> none_done (ts[i := Started c t], w')"
  unfolding none_done_def fst_conv by (erule slots_update) simp

interpretation running: inductive_system "\<lambda>s. s = client_init channels" "running_step io tgt" none_done
  for channels io tgt
proof unfold_locales
  show "none_done s" if "s = client_init channels" for s using that by (simp add: none_done_def client_init_def)
next
  fix s s' assume good: "none_done s" and "running_step io tgt s s'"
  from this(2) show "none_done s'"
  proof cases
    case (running_start i ts c w r w')
    with good start_task_not_done [of io c w] show ?thesis by (simp add: none_done_update)
  next
    case (running_event i ts c t ev w t' w')
    with task_ends_on_signal [of io tgt ev t w "()" w'] have "t' \<noteq> TaskEnded (Ok ())" by auto
    with good running_event(1,2) show ?thesis by (simp add: none_done_update)
  qed
qed

lemma no_success_joined:
  assumes "reach (\<lambda>s. s = client_init channels) (running_step io tgt) cs"
  shows "Joined (Inr u) \<notin> joins_of cs"
  using running.reach_good [OF assms] by (force simp: none_done_def joins_of_def join_of_success)

section \<open>How the program ends\<close>

text \<open>
  C11: The program ends successfully only as a client that was told to. Let the joins that the supervision
  of the client sees be those of tasks that have ended, in any interleaving of the tasks before the
  shutdown, and let the accept loop of the server be in a state that it can reach. If \<open>main\<close> returns
  successfully, then the command was the client's, Ctrl-C was signalled (no task of the client ever
  returns of its own accord without an error), the client has shut down in order and it has written no
  file. The server command does not return successfully at all.
\<close>

theorem main_ends_on_ctrl_c:
  assumes "reach (\<lambda>s. s = client_init channels) (running_step io tgt) cs"
    and joins: "\<And>r. JoinPolled r \<in> set evs \<Longrightarrow> r \<in> joins_of cs"
    and accepting: "\<And>l acceptor allowed. reach (\<lambda>s. s = run_init) tunnel_run_step (run l acceptor allowed)"
    and main: "main pki net remote ctoml evs close_peer js stoml bt bl run logger command s = (Ok (), l, s')"
  shows "\<exists>st path. command = Command_Client st path \<and> CtrlC (Inr ()) \<in> set evs
    \<and> l = [AbortAll, CloseWrappedPeer, DropEndSender, JoinAll] \<and> s' = s"
proof (cases command)
  case (Command_Client st path)
  with main have "client_command pki net remote ctoml evs close_peer js st path s = (Ok (), l)" "s' = s"
    by (auto simp: main_def map_res_Ok_iff split: sum.splits prod.splits)
  with client_command_log [where pki = pki and net = net and remote = remote and toml = ctoml and evs = evs
      and close_peer = close_peer and joins = js and st = st and path = path and s = s] joins
    no_success_joined [OF assms(1), of "()"] Command_Client show ?thesis by auto
next
  case (Command_Server st path)
  with main obtain s'' where ok: "server_command pki stoml bt bl run st path s = (Ok (), s'')"
    by (auto simp: main_def map_res_Ok_iff split: sum.splits prod.splits)
  with server_command_reaches_run [of pki stoml bt bl run st path s]
  obtain l acceptor allowed where "server_command pki stoml bt bl run st path s = (run_outcome (run l acceptor allowed), s'')"
    by (auto split: if_splits)
  with ok show ?thesis by (simp add: tunnel_run_outcome [OF accepting] split: if_splits)
qed

theorem main_ends_on_ctrl_c_witness:
  "\<exists>l. main toy_pki demo_net demo_remote (\<lambda>c. Inr demo_client_config :: string + ClientConfig) [CtrlC (Inr ())] (Ok ())
      [JoinPanicked] (\<lambda>c. Inl ''x'') (\<lambda>a. Inr ()) (\<lambda>a. Inr ()) (\<lambda>l acceptor allowed. run_init) (Inr () :: unit + unit)
      (Command_Client (Client_TCP ''10.0.0.1:9'') ''client.toml'') demo_client_fs = (Ok (), l, demo_client_fs)
    \<and> l = [AbortAll, CloseWrappedPeer, DropEndSender, JoinAll]"
proof -
  let ?main = "main toy_pki demo_net demo_remote (\<lambda>c. Inr demo_client_config :: string + ClientConfig) [CtrlC (Inr ())] (Ok ())
      [JoinPanicked] (\<lambda>c. Inl ''x'') (\<lambda>a. Inr ()) (\<lambda>a. Inr ()) (\<lambda>l acceptor allowed. run_init) (Inr () :: unit + unit)
      (Command_Client (Client_TCP ''10.0.0.1:9'') ''client.toml'') demo_client_fs"
  obtain h where setup_ok: "client_setup toy_pki demo_net demo_remote (\<lambda>c. Inr demo_client_config :: string + ClientConfig)
    (Client_TCP ''10.0.0.1:9'') ''client.toml'' demo_client_fs [] = (Ok demo_client_config, h)"
    using demo_client_setup by blast
  have "length (client_channels demo_client_config) \<le> length [JoinPanicked :: unit join_result]"
    by (simp add: demo_client_config_def)
  from client_command_ctrl_c [OF setup_ok _ this, of "Ok ()" "()" "[]"] obtain l where
    run: "?main = (Ok (), l, demo_client_fs)" by (simp add: main_def)
  moreover have "reach (\<lambda>s. s = client_init [demo_tcp]) (running_step toy_io x86_64_debug) (client_init [demo_tcp])"
    by (rule reach_init) (rule refl)
  from main_ends_on_ctrl_c [OF this _ _ run] have "l = [AbortAll, CloseWrappedPeer, DropEndSender, JoinAll]"
    by (auto intro: reach_init)
  ultimately show ?thesis by blast
qed

end
