(* ===== verification/Spec2Isabelle.thy ===== *)
theory Spec2Isabelle
  imports Handshake Tunnel_Main
begin

text \<open>
  Verification of \<open>mangle-webrtc\<close>: the library \<open>upgrade2webrtc\<close>, which upgrades a byte stream (TCP or
  local socket, optionally under TLS) to a WebRTC peer connection by exchanging descriptions and ICE
  candidates over it, and the program \<open>webrtc-tunnel\<close>, which forwards local TCP and UDP ports through the
  data channels of such a connection.

  \<^bold>\<open>How the program works.\<close> A client connects a stream (\<open>client_new_tcp\<close>, \<open>client_new_local_socket\<close>,
  \<open>add_tls\<close>) and calls \<open>upgrade\<close>: it creates a peer with the requested data channels, sends its offer,
  waits for the answer and trickles candidates both ways until each side has sent an end marker. The
  server's \<open>run\<close> accepts transports and spawns a task for each, which serves offers in a loop: peer, answer,
  candidates, then \<open>on_success\<close>; every error closes the peer and goes to \<open>on_err\<close>. Objects travel as
  frames, a 32-bit length and a serialised payload, written by \<open>send_obj\<close> and read by \<open>recv_obj\<close> of
  \<open>StreamTransport\<close>. The tunnel's client upgrades, closes the initial data channel, and starts a task per
  configured channel that opens a numbered data channel, with the port as its protocol, for each local
  client; the tunnel's server looks the protocol up in its table and connects to the local service.

  \<^bold>\<open>The theories and the code they model.\<close>
  \<^item> \<open>Rust_Prelude\<close>: outcomes of fallible, panicking and blocking code (\<open>res\<close>), the composition that \<open>?\<close>
    stands for (\<open>and_then\<close>), machine parameters (\<open>target\<close>: width of \<open>usize\<close>, debug or release build),
    reachability, and the locale \<open>inductive_system\<close> for invariants of step relations.
  \<^item> \<open>Transport\<close>: \<open>upgrade2webrtc/src/transport.rs\<close>. A stream is a script of reads and writes, so that
    every way of cutting the bytes into reads and every failure is an input. \<open>send_obj\<close>, \<open>recv_obj\<close>
    with its buffer, cancellation by \<open>select!\<close>, the accepting listeners. The locale of a FIFO link is
    interpreted on the framed wire.
  \<^item> \<open>Rtc_Types\<close>, \<open>Trickle\<close>: constants and messages of \<open>lib.rs\<close>, the calls into the \<open>webrtc\<close> crate as an
    environment of functions of the history of effects, and the skeleton of the two trickle loops as a
    locale with its contract, interpreted on the loops of client and server.
  \<^item> \<open>Upgrade_Client\<close>: \<open>upgrade\<close> of \<open>client.rs\<close>, with every early return.
  \<^item> \<open>Upgrade_Server\<close>: the task of one connection in \<open>run\<close> of \<open>server.rs\<close>.
  \<^item> \<open>Tls_Init\<close>: \<open>tls.rs\<close> over a file system with faults; \<open>rcgen\<close> and \<open>rustls\<close> are parameters.
  \<^item> \<open>Server_Run\<close>: the accept loop, \<open>close_server\<close>, listeners with TLS, construction of the endpoints.
  \<^item> \<open>Handshake\<close>: both ends of an upgrade together: the agreement of their traces and the joint
    transition system of their trickle loops.
  \<^item> \<open>Tunnel_Config\<close>, \<open>Tunnel_Server\<close>, \<open>Tunnel_Listeners\<close>, \<open>Tunnel_Client\<close>, \<open>Tunnel_Main\<close>: \<open>webrtc-tunnel\<close>, its
    configuration, the server command and its sessions, the tasks and sessions of the client, the client
    command with its supervision and shutdown, and \<open>main\<close>.
  \<^item> This theory: the properties that span the components.

  \<^bold>\<open>What is shown.\<close>
  \<^item> Framing: objects come back in order however the stream cuts them; the wire refines a FIFO queue under
    every interleaving; \<open>recv_obj\<close> may be cancelled at any read, does not panic where \<open>usize\<close> is wider than
    32 bits, and its buffer is bounded.
  \<^item> Upgrade: what a successful upgrade and service have sent, received and added; that they end in any
    order of events; that the two loops run against each other without deadlock and end with nothing in
    transit; that all this holds over the framed wire with a codec that is not self-describing (below).
  \<^item> Resources: the server closes every peer or hands it on, and a task reports at most one error, as the
    last thing it does; \<open>run\<close> returns only when told to and after its tasks; once the tunnel's client has
    connected, its peer is closed on every path that returns, by the \<open>Drop\<close> of its wrapper and, in an orderly
    shutdown, by an explicit \<open>close\<close> before that.
  \<^item> TLS: a created authority is loaded by later starts, which draw other keys, an existing one is never
    overwritten, neither command falls back to plain text.
  \<^item> Tunnel: labels of data channels are distinct in every interleaving of the tasks, also between the draw
    of a number and its use; routing by port from client to server (below), forwarding of the sessions,
    orderly shutdown on Ctrl-C and only then, and which panics of the client are possible.
  \<^item> Defects that the model exhibits are theorems too: a TCP session of the client that sends nothing, a
    UDP listener that forwards zeros, a second bind of the listener's address, sessions that carry one chunk,
    an accept loop that the first failed accept stops, an upgrade that hangs because the candidates gathered
    before its handler is registered are lost, an authority whose key could not be written and that breaks
    every later start.

  \<^bold>\<open>Choices.\<close> What the environment does is an argument: scripts of reads, writes and events for what
  becomes ready in a \<open>select!\<close>, and functions of the history for awaited calls. No loop has fuel: a loop is
  recursive in the script that feeds it, and a script that ends before the loop does gives \<open>Blocked\<close>, which
  stands for waiting forever; properties that a loop ends are stated for scripts that contain what the loop
  waits for, and then exclude \<open>Blocked\<close>. Loops over sends take the results of the sends as their script.
  Concurrency (tasks of \<open>run\<close>, tasks of the tunnel's client, the two ends of an upgrade, references to the
  peer) is a step relation that interleaves the parts between awaits: a listener of the client has a control
  point for every await of its handler and for its access to the shared counter, and the accept loop one for
  an \<open>on_err\<close> that is pending. \<open>usize\<close> arithmetic is at the width of the target with its overflow checks.

  \<^bold>\<open>Not modelled.\<close> The \<open>webrtc\<close>, \<open>bitcode\<close>, \<open>toml\<close>, \<open>rcgen\<close>, \<open>rustls\<close> and \<open>tokio\<close> crates, which are
  parameters or whose documented behaviour is written out; derived \<open>Debug\<close> implementations, log output and
  the parsing of arguments by \<open>clap\<close>, which do not touch the state; imports and re-exports; the integration
  test in \<open>lib.rs\<close>.
\<close>

section \<open>The upgrade over the framed wire\<close>

text \<open>What the receiver has read off a framed wire is a prefix of what was sent on it.\<close>

lemma wire_prefix:
  assumes "run_link wire_put (wire_get x86_64_debug) [] ops = (got, rest)"
    and "\<forall>m \<in> set (puts ops). length m < 2 ^ 32"
  shows "puts ops = got @ unframe x86_64_debug rest"
proof -
  have "whole_frames []" using whole_framesI [of "[]"] by simp
  moreover have "unframe x86_64_debug [] = []"
    using unframe_frames [of x86_64_debug "[]"] by (simp add: x86_64_debug_def)
  ultimately show ?thesis using wire.run_link_fifo [OF _ assms(2), of "[]"] assms(1) by simp
qed

text \<open>The first object that the client decodes is the server's answer: there are no early candidates.\<close>

lemma no_early_candidates:
  assumes "\<And>x. dec (kind_of x) (ser x) = Some x"
    and "decodes dec bs (map (WMsg \<circ> ICE) early @ WMsg (SDPAnswer answer) # ys)"
    and "prefix bs (map ser (WMsg (SDPAnswer answer') # xs))"
  shows "early = []"
proof (cases early)
  case (Cons e es)
  with assms(2) obtain b bs' where "bs = b # bs'" "dec KMsg b = Some (WMsg (ICE e))" by (auto simp: decodes_Cons)
  with assms(3) assms(1) [of "WMsg (SDPAnswer answer')"] show ?thesis by simp
qed

text \<open>
  C1: The upgrade as a whole, down to the bytes. Let a client's upgrade and a server's service both succeed,
  connected by two framed wires on which sends and receives interleave in any way; let the encoding give
  an object back when it is decoded at the type it was encoded at (and only then: it is not
  self-describing); and let each side's gathering end with its end marker. Then each side asks for the
  types in the order in which the other has sent them, and has received exactly the objects that the
  other has sent: the server served the client's offer, the client got the server's answer, each side
  added all candidates of the other once and in order, and both wires are empty for the next round.
\<close>

theorem handshake_over_wire:
  assumes client: "upgrade cenv cfgs msgs cevs [] = (Ok channels :: (('de, 'werr) ClientError, _) res, hc)"
    and server: "serve_offer senv tid offer sevs [RecvObj (WOffer offer), NewPeer] = (Ok (), hs)"
    and gathers: "locals cevs = map Some ccs @ [None]" "slocals sevs = map Some scs @ [None]"
    and codec: "\<And>x. dec (kind_of x) (ser x) = Some x"
      "\<forall>x \<in> set (sent hc) \<union> set (sent hs). length (ser x) < 2 ^ 32"
    and up: "puts ups = map ser (sent hc)" "run_link wire_put (wire_get x86_64_debug) [] ups = (ugot, urest)"
      "decodes dec ugot (received hs)"
    and down: "puts downs = map ser (sent hs)" "run_link wire_put (wire_get x86_64_debug) [] downs = (dgot, drest)"
      "decodes dec dgot (received hc)"
  shows "received hc = sent hs \<and> received hs = sent hc
    \<and> sent hc = WOffer offer # map WOptCand (map Some ccs @ [None])
    \<and> (\<exists>answer. received hc = WMsg (SDPAnswer answer) # json_messages senv (map Some scs @ [None]))
    \<and> added hc = jsons senv (map Some scs) \<and> added hs = jsons senv (map Some ccs)
    \<and> unframe x86_64_debug urest = [] \<and> unframe x86_64_debug drest = []"
proof -
  have u: "map ser (sent hc) = ugot @ unframe x86_64_debug urest"
    using wire_prefix [OF up(2)] codec(2) by (simp add: up(1))
  have d: "map ser (sent hs) = dgot @ unframe x86_64_debug drest"
    using wire_prefix [OF down(2)] codec(2) by (simp add: down(1))
  from client_trace [OF client gathers(1)] obtain offer' answer early ms where
    c: "sent hc = WOffer offer' # map WOptCand (map Some ccs @ [None])"
      "received hc = map (WMsg \<circ> ICE) early @ WMsg (SDPAnswer answer) # map WOptMsg ms" by blast
  from server_trace [OF server gathers(2)] obtain answer' cs where
    s: "sent hs = WMsg (SDPAnswer answer') # json_messages senv (map Some scs @ [None])"
      "received hs = WOffer offer # map WOptCand cs" by auto
  have lu: "length ugot = length (received hs)" and ld: "length dgot = length (received hc)"
    using up(3) down(3) by (auto simp: decodes_def dest: list_all2_lengthD)
  have e: "early = []"
    by (rule no_early_candidates [OF codec(1) down(3) [unfolded c(2)], of answer' "json_messages senv (map Some scs @ [None])"])
      (use d s(1) in simp)
  have "prefix (received hs) (sent hc)"
  proof (rule decodes_prefix [OF codec(1) up(3)])
    show "prefix ugot (map ser (sent hc))" by (simp add: u)
    have "length (received hs) \<le> length (sent hc)" using arg_cong [OF u, of length] lu by simp
    then show "prefix (map kind_of (received hs)) (map kind_of (sent hc))"
      unfolding s(2) c(1) list.map kinds_of_lists by (simp add: prefix_replicate del: replicate.simps)
  qed
  moreover have "prefix (received hc) (sent hs)"
  proof (rule decodes_prefix [OF codec(1) down(3)])
    show "prefix dgot (map ser (sent hs))" by (simp add: d)
    have "length (received hc) \<le> length (sent hs)" using arg_cong [OF d, of length] ld by simp
    then show "prefix (map kind_of (received hc)) (map kind_of (sent hs))"
      unfolding c(2) s(1) e list.map append_Nil kinds_of_lists by (simp add: prefix_replicate del: replicate.simps)
  qed
  ultimately have a: "received hc = sent hs \<and> received hs = sent hc
    \<and> sent hc = WOffer offer # map WOptCand (map Some ccs @ [None])
    \<and> (\<exists>answer. received hc = WMsg (SDPAnswer answer) # json_messages senv (map Some scs @ [None]))
    \<and> added hc = jsons senv (map Some scs) \<and> added hs = jsons senv (map Some ccs)"
    by (intro handshake_agreement [OF client server _ _ gathers])
  moreover have "unframe x86_64_debug urest = []" using arg_cong [OF u, of length] lu a by simp
  moreover have "unframe x86_64_debug drest = []" using arg_cong [OF d, of length] ld a by simp
  ultimately show ?thesis unfolding conj_assoc [symmetric] by (rule conjI [OF conjI])
qed


text \<open>A codec on objects over natural numbers, in unary, and the two wires of the demonstration run.\<close>

fun unary_msg :: "(nat, nat) RTCMessage \<Rightarrow> bytes" where
  "unary_msg (SDPAnswer n) = 0 # replicate n 0"
| "unary_msg (ICE n) = 1 # replicate n 0"

fun unary_ser :: "(nat, nat, nat) wire_obj \<Rightarrow> bytes" where
  "unary_ser (WOffer n) = replicate n 0"
| "unary_ser (WMsg m) = unary_msg m"
| "unary_ser (WOptMsg None) = []"
| "unary_ser (WOptMsg (Some m)) = unary_msg m"
| "unary_ser (WOptCand None) = []"
| "unary_ser (WOptCand (Some n)) = replicate (Suc n) 0"

definition unary_de_msg :: "bytes \<Rightarrow> (nat, nat) RTCMessage" where
  "unary_de_msg b = (if hd b = 0 then SDPAnswer (length b - 1) else ICE (length b - 1))"

fun unary_de :: "wire_kind \<Rightarrow> bytes \<Rightarrow> (nat, nat, nat) wire_obj option" where
  "unary_de KOffer b = Some (WOffer (length b))"
| "unary_de KMsg b = Some (WMsg (unary_de_msg b))"
| "unary_de KOptMsg b = Some (WOptMsg (if b = [] then None else Some (unary_de_msg b)))"
| "unary_de KOptCand b = Some (WOptCand (if b = [] then None else Some (length b - 1)))"

lemma unary_de_msg [simp]: "unary_de_msg (unary_msg m) = m" "unary_msg m \<noteq> []"
  by (cases m; simp add: unary_de_msg_def)+

lemma unary_codec: "unary_de (kind_of x) (unary_ser x) = Some x"
  by (cases x rule: unary_ser.cases) simp_all

lemma run_link_puts:
  "run_link wire_put get wire (map Put ms @ ops) = run_link wire_put get (wire @ concat (map frame_of ms)) ops"
  by (induction ms arbitrary: wire) (simp_all add: wire_put_def)

lemma run_link_gets:
  assumes "33 \<le> ptr_bits tgt" and "\<forall>m \<in> set ms. length m < 2 ^ 32"
  shows "run_link wire_put (wire_get tgt) (concat (map frame_of ms)) (replicate (length ms) Get) = (ms, [])"
  using assms(2)
proof (induction ms)
  case (Cons m ms)
  then show ?case by (simp add: wire_get_def split_frame_complete [OF assms(1)])
qed simp

lemma run_link_all:
  assumes "\<forall>m \<in> set ms. length m < 2 ^ 32"
  shows "run_link wire_put (wire_get x86_64_debug) [] (map Put ms @ replicate (length ms) Get) = (ms, [])"
  using run_link_gets [OF _ assms, of x86_64_debug] by (simp add: run_link_puts x86_64_debug_def)

lemma puts_all: "puts (map Put ms @ replicate k Get) = ms"
proof -
  have "puts (replicate k Get) = []" by (induction k) simp_all
  then show ?thesis by (induction ms) simp_all
qed

lemma decodes_all:
  assumes "\<And>x. dec (kind_of x) (ser x) = Some x"
  shows "decodes dec (map ser xs) xs"
  by (induction xs) (simp_all add: decodes_Cons decodes_def assms)

theorem handshake_over_wire_witness:
  "received (snd demo_client_run) = sent (snd demo_server_run)
    \<and> added (snd demo_client_run) = jsons (ok_env :: (nat, nat, nat, nat, unit, string, unit) server_env) (map Some [3])
    \<and> added (snd demo_server_run) = jsons (ok_env :: (nat, nat, nat, nat, unit, string, unit) server_env) (map Some [7])"
proof -
  let ?ms = "\<lambda>h. map unary_ser (sent h)" and ?ops = "\<lambda>ms. map Put ms @ replicate (length ms) Get"
  let ?hc = "snd demo_client_run" and ?hs = "snd demo_server_run"
  have small: "\<forall>x \<in> set (sent ?hc) \<union> set (sent ?hs). length (unary_ser x) < 2 ^ 32"
    by (simp add: demo_runs(3-6))
  from small have "\<forall>m \<in> set (?ms ?hc). length m < 2 ^ 32" "\<forall>m \<in> set (?ms ?hs). length m < 2 ^ 32"
    unfolding set_map by blast+
  note links = this [THEN run_link_all]
  have same: "received ?hs = sent ?hc" "received ?hc = sent ?hs" by (simp_all only: demo_runs(3-6))
  note run = handshake_over_wire [OF trans [OF demo_client_run_def [symmetric] demo_runs(1)]
      trans [OF demo_server_run_def [symmetric] demo_runs(2)] _ _ unary_codec small puts_all links(1) _ puts_all links(2),
      where ccs = "[7]" and scs = "[3]"]
  show ?thesis using run unfolding same by (simp add: demo_server_events_def decodes_all [OF unary_codec])
qed

section \<open>The tunnel from end to end\<close>

text \<open>
  The data channel as the server sees it: the label and the protocol that the client gave are sent in the
  channel's opening message, an absent protocol as the empty string.
\<close>

definition arriving :: "string \<Rightarrow> RTCDataChannelInit \<Rightarrow> data_channel" where
  "arriving label config = \<lparr>dc_label = label, dc_protocol = unwrap_or (protocol config) []\<rparr>"

lemma opened_configured:
  assumes "reach (\<lambda>s. s = client_init channels) (client_step io tgt) (ts, w)" and "(label, config) \<in> set (opened w)"
  shows "config \<in> configured channels"
  using configs.reach_good [OF assms(1)] assms(2) by (force simp: tasks_inv_def configs_ok_def)

lemma arriving_protocol [simp]: "dc_protocol (arriving label (channel_config quality port)) = port_to_string port"
  by (simp add: arriving_def channel_config_def)

text \<open>What the server does with one data channel, by the entry of its table.\<close>

lemma one_channel_effects:
  "allowed (dc_protocol dc) = None
    \<Longrightarrow> snd (tunnel_on_success io tgt allowed [Some dc] []) = [RecvChannel dc, CloseChannel dc]"
  "allowed (dc_protocol dc) = Some c
    \<Longrightarrow> \<exists>new. snd (tunnel_on_success io tgt allowed [Some dc] []) = RecvChannel dc # new \<and> session_effects c new"
proof -
  show "snd (tunnel_on_success io tgt allowed [Some dc] []) = [RecvChannel dc, CloseChannel dc]"
    if "allowed (dc_protocol dc) = None"
    using that by (simp add: and_then_def split: res.split)
  obtain new where new: "snd (serve_channel io tgt c dc [RecvChannel dc]) = RecvChannel dc # new" "session_effects c new"
    using serve_channel_effects [of io tgt c dc "[RecvChannel dc]"] by auto
  show "\<exists>new. snd (tunnel_on_success io tgt allowed [Some dc] []) = RecvChannel dc # new \<and> session_effects c new"
    if "allowed (dc_protocol dc) = Some c"
    unfolding tunnel_on_success.simps
    using that new and_then_stops_or_goes_on [of "serve_channel io tgt c dc [RecvChannel dc]"
        "\<lambda>_ h. (Blocked, h)"] by auto
qed

text \<open>
  C9: The port is what the two ends of the tunnel agree on. Take any data channel that a task of the
  client has opened, in any interleaving of the tasks and whatever the sockets do, and let it arrive at
  a server. It belongs to a configured channel of the client, and its protocol is the port of that
  channel. The server connects, if at all, to the port of a channel of its own configuration that is
  published under that port, over TCP for a TCP channel and over UDP for a UDP channel; and if it
  publishes nothing under that port it closes the data channel and does nothing else.
\<close>

theorem tunnel_routes_by_port:
  assumes reached: "reach (\<lambda>s. s = client_init cchannels) (client_step cio ctgt) (ts, w)"
    and "(label, config) \<in> set (opened w)"
    and effects: "effects = snd (tunnel_on_success sio stgt (allowed_channels schannels) [Some (arriving label config)] [])"
  shows "\<exists>port remap quality. (Channel_UDP port remap (Some quality) \<in> set cchannels
        \<or> Channel_TCP port remap (Some quality) \<in> set cchannels)
      \<and> config = channel_config quality port
      \<and> (\<forall>p. TcpConnect p \<in> set effects \<longrightarrow> (\<exists>r q. Channel_TCP p r q \<in> set schannels \<and> unwrap_or r p = port))
      \<and> (\<forall>p. UdpConnect p \<in> set effects \<longrightarrow> (\<exists>r q. Channel_UDP p r q \<in> set schannels \<and> unwrap_or r p = port))
      \<and> (port_to_string port \<notin> channel_key ` set schannels
          \<longrightarrow> effects = [RecvChannel (arriving label config), CloseChannel (arriving label config)])"
proof -
  let ?dc = "arriving label config"
  obtain port remap quality where c: "Channel_UDP port remap (Some quality) \<in> set cchannels
      \<or> Channel_TCP port remap (Some quality) \<in> set cchannels" "config = channel_config quality port"
    using opened_configured [OF assms(1,2)] by (auto simp: configured_def)
  have "(\<forall>p. TcpConnect p \<in> set effects \<longrightarrow> (\<exists>r q. Channel_TCP p r q \<in> set schannels \<and> unwrap_or r p = port))
      \<and> (\<forall>p. UdpConnect p \<in> set effects \<longrightarrow> (\<exists>r q. Channel_UDP p r q \<in> set schannels \<and> unwrap_or r p = port))
      \<and> (port_to_string port \<notin> channel_key ` set schannels \<longrightarrow> effects = [RecvChannel ?dc, CloseChannel ?dc])"
  proof (cases "allowed_channels schannels (dc_protocol ?dc)")
    case None
    then have "effects = [RecvChannel ?dc, CloseChannel ?dc]" unfolding effects by (rule one_channel_effects(1))
    then show ?thesis by simp
  next
    case (Some channel)
    from one_channel_effects(2) [of "allowed_channels schannels", OF Some] obtain new where
      new: "effects = RecvChannel ?dc # new" "session_effects channel new" unfolding effects by blast
    from Some have "channel \<in> set schannels" "channel_key channel = port_to_string port"
      using allowed_channels_member [OF Some] by (simp_all add: c(2))
    with new show ?thesis by (fastforce simp: session_effects_def image_iff)
  qed
  with c show ?thesis by blast
qed

lemma channel_config_port: "channel_config q p = channel_config q' p' \<Longrightarrow> p = p'"
  by (drule arg_cong [of _ _ protocol]) (simp add: channel_config_def)

theorem tunnel_routes_by_port_witness:
  "TcpConnect 8000 \<in> set (snd (tunnel_on_success (demo_io [1, 2] 1) x86_64_debug
      (allowed_channels [Channel_TCP 8000 (Some 80) None]) [Some (arriving ''0'' (channel_config Quality_TCP 80))] []))
    \<and> (\<exists>r q. Channel_TCP 8000 r q \<in> set [Channel_TCP 8000 (Some 80) None] \<and> unwrap_or r 8000 = 80)"
proof -
  let ?e = "snd (tunnel_on_success (demo_io [1, 2] 1) x86_64_debug
      (allowed_channels [Channel_TCP 8000 (Some 80) None]) [Some (arriving ''0'' (channel_config Quality_TCP 80))] [])"
  have conn: "TcpConnect 8000 \<in> set ?e"
    by (simp add: allowed_channels_map_of tcp_session_def demo_io_def and_then_def or_panic_def unwrapped_def)
  have opn: "(''0'', channel_config Quality_TCP 80) \<in> set (opened \<lparr>channel_counter = 2, actions = [BindTcp 8080, BindTcp 81,
      OpenChannel ''1'' (channel_config Quality_TCP 81), OpenChannel ''0'' (channel_config Quality_TCP 80)]\<rparr>)"
    by (simp add: opened_def List.map_filter_def)
  from tunnel_routes_by_port [OF demo_two_opened opn refl, of "demo_io [1, 2] 1" x86_64_debug
      "[Channel_TCP 8000 (Some 80) None]"] conn
  obtain port q where port: "channel_config Quality_TCP 80 = channel_config q port"
    and route: "\<exists>r q. Channel_TCP 8000 r q \<in> set [Channel_TCP 8000 (Some 80) None] \<and> unwrap_or r 8000 = port"
    by blast
  from conn route show ?thesis unfolding channel_config_port [OF port, symmetric] by (rule conjI)
qed

end
